theory Spec2Isabelle
  imports Complex_Main "HOL-Library.Multiset"
begin

section \<open>JavaScript values, arrays and exceptions\<close>

text \<open>
  The repository is one script, \<^verbatim>\<open>connect4.js\<close>, holding two variants of the class
  \<^verbatim>\<open>Game\<close>: the first rotates a list of players, the second plays a human against a
  \<^verbatim>\<open>ComputerPlayer\<close>. Both keep the board as an array of rows, \<^verbatim>\<open>board[y][x]\<close>.

  A cell is \<^verbatim>\<open>undefined\<close> (as \<^verbatim>\<open>Array.from({ length: width })\<close> leaves it) or the colour
  string of a player. The code tests a cell with \<^verbatim>\<open>!cell\<close> and \<^verbatim>\<open>cell => cell\<close>, so what
  counts as occupied is truthiness: \<^verbatim>\<open>undefined\<close> and the empty string are falsy.
\<close>

datatype jsval = Undefined | Str string

fun truthy :: "jsval \<Rightarrow> bool" where
  "truthy Undefined = False"
| "truthy (Str s) = (s \<noteq> [])"

text \<open>
  The only exception the modelled code raises is a \<^verbatim>\<open>TypeError\<close>: reading a property of
  \<^verbatim>\<open>undefined\<close> or calling a method of \<^verbatim>\<open>null\<close>. A handler that throws keeps the
  mutations it made before the throw, so a completion carries the state either way.
\<close>

datatype error = TypeError

datatype 's completion = Returns 's | Throws error 's

fun state_of :: "'s completion \<Rightarrow> 's" where
  "state_of (Returns s) = s"
| "state_of (Throws e s) = s"

text \<open>
  A JavaScript array: its \<^verbatim>\<open>length\<close> and its properties by integer key. A key that is an
  array index (from 0 to \<open>2\<^sup>3\<^sup>2 - 2\<close>) is an element; any other integer key (a negative
  one) is an ordinary property that leaves \<^verbatim>\<open>length\<close> alone. An index below \<^verbatim>\<open>length\<close>
  with no property is a hole: it reads as \<^verbatim>\<open>undefined\<close> and \<^verbatim>\<open>every\<close> skips it.
\<close>

record jsarray =
  alength :: nat
  aprops :: "int \<Rightarrow> jsval option"

definition array_index :: "int \<Rightarrow> bool" where
  "array_index i = (0 \<le> i \<and> i < 4294967295)"

definition array_from :: "int \<Rightarrow> jsarray" where
  \<comment> \<open>\<^verbatim>\<open>Array.from({ length: w })\<close>: \<open>w\<close> elements, each \<^verbatim>\<open>undefined\<close>; none for a
      negative \<open>w\<close>. (A length beyond \<open>2\<^sup>3\<^sup>2 - 1\<close> makes the call throw; such widths are
      not modelled.)\<close>
  "array_from w =
     \<lparr>alength = nat w, aprops = (\<lambda>i. if 0 \<le> i \<and> i < w then Some Undefined else None)\<rparr>"

definition aget :: "jsarray \<Rightarrow> int \<Rightarrow> jsval" where
  \<comment> \<open>\<^verbatim>\<open>a[i]\<close>\<close>
  "aget a i = (case aprops a i of None \<Rightarrow> Undefined | Some v \<Rightarrow> v)"

definition aset :: "jsarray \<Rightarrow> int \<Rightarrow> jsval \<Rightarrow> jsarray" where
  \<comment> \<open>\<^verbatim>\<open>a[i] = v\<close>: a write past the end extends the array.\<close>
  "aset a i v =
     \<lparr>alength = (if array_index i then max (alength a) (nat i + 1) else alength a),
      aprops = (aprops a)(i \<mapsto> v)\<rparr>"

definition every :: "(jsval \<Rightarrow> bool) \<Rightarrow> jsarray \<Rightarrow> bool" where
  \<comment> \<open>\<^verbatim>\<open>a.every(P)\<close>\<close>
  "every P a =
     list_all (\<lambda>k. case aprops a (int k) of None \<Rightarrow> True | Some v \<Rightarrow> P v) [0..<alength a]"

section \<open>The grid\<close>

record grid =
  width :: int
  height :: int
  board :: "jsarray list"

definition row :: "jsarray list \<Rightarrow> int \<Rightarrow> jsarray option" where
  \<comment> \<open>\<^verbatim>\<open>board[y]\<close>; \<open>None\<close> is \<^verbatim>\<open>undefined\<close>. Rows are only ever pushed by \<^verbatim>\<open>makeBoard\<close>.\<close>
  "row b y = (if 0 \<le> y \<and> nat y < length b then Some (b ! nat y) else None)"

definition cell :: "jsarray list \<Rightarrow> int \<Rightarrow> int \<Rightarrow> error + jsval" where
  \<comment> \<open>\<^verbatim>\<open>board[y][x]\<close>\<close>
  "cell b y x = (case row b y of None \<Rightarrow> Inl TypeError | Some a \<Rightarrow> Inr (aget a x))"

definition store :: "jsarray list \<Rightarrow> int \<Rightarrow> int \<Rightarrow> jsval \<Rightarrow> error + jsarray list" where
  \<comment> \<open>\<^verbatim>\<open>board[y][x] = v\<close>\<close>
  "store b y x v =
     (case row b y of None \<Rightarrow> Inl TypeError | Some a \<Rightarrow> Inr (b[nat y := aset a x v]))"

function makeBoard_from :: "int \<Rightarrow> int \<Rightarrow> int \<Rightarrow> jsarray list \<Rightarrow> jsarray list" where
  "makeBoard_from w h y b =
     (if y < h then makeBoard_from w h (y + 1) (b @ [array_from w]) else b)"
  by pat_completeness auto
termination
  by (relation "measure (\<lambda>(w, h, y, b). nat (h - y))") auto

definition makeBoard :: "'a grid_scheme \<Rightarrow> 'a grid_scheme" where
  "makeBoard g = g\<lparr>board := makeBoard_from (width g) (height g) 0 (board g)\<rparr>"

text \<open>
  \<^verbatim>\<open>findSpotForCol(x)\<close>, the same in both variants: the loop runs \<open>y\<close> from
  \<^verbatim>\<open>height - 1\<close> down to 0 and returns the first \<open>y\<close> whose cell is falsy; \<open>None\<close> is the
  \<^verbatim>\<open>null\<close> it returns when the loop ends.
\<close>

function findSpotForCol_from :: "'a grid_scheme \<Rightarrow> int \<Rightarrow> int \<Rightarrow> error + int option" where
  "findSpotForCol_from g x y =
     (if y \<ge> 0 then
        (case cell (board g) y x of
           Inl e \<Rightarrow> Inl e
         | Inr v \<Rightarrow> if \<not> truthy v then Inr (Some y) else findSpotForCol_from g x (y - 1))
      else Inr None)"
  by pat_completeness auto
termination
  by (relation "measure (\<lambda>(g, x, y). nat (y + 1))") auto

definition findSpotForCol :: "'a grid_scheme \<Rightarrow> int \<Rightarrow> error + int option" where
  "findSpotForCol g x = findSpotForCol_from g x (height g - 1)"

text \<open>
  The grids the constructor builds and the handlers keep: \<^verbatim>\<open>height\<close> rows, each of
  length \<^verbatim>\<open>width\<close> with every element present.
\<close>

definition wf_row :: "int \<Rightarrow> jsarray \<Rightarrow> bool" where
  "wf_row w a = (alength a = nat w \<and> list_all (\<lambda>k. aprops a (int k) \<noteq> None) [0..<nat w])"

definition wf_grid :: "'a grid_scheme \<Rightarrow> bool" where
  "wf_grid g = (length (board g) = nat (height g) \<and> list_all (wf_row (width g)) (board g))"

definition occupied :: "'a grid_scheme \<Rightarrow> int \<Rightarrow> int \<Rightarrow> bool" where
  \<comment> \<open>The cell \<open>(y, x)\<close> of the grid holds a truthy value.\<close>
  "occupied g y x = (case cell (board g) y x of Inl e \<Rightarrow> False | Inr v \<Rightarrow> truthy v)"

definition filled_from :: "'a grid_scheme \<Rightarrow> int \<Rightarrow> int \<Rightarrow> bool" where
  \<comment> \<open>Column \<open>x\<close> is unoccupied in the rows above \<open>r\<close> and occupied from \<open>r\<close> down.\<close>
  "filled_from g x r =
     (list_all (\<lambda>k. \<not> occupied g (int k) x) [0..<nat r] \<and>
      list_all (\<lambda>k. occupied g (int k) x) [nat r..<nat (height g)])"

section \<open>Players and placement\<close>

record player =
  color :: string

definition placeInTable :: "'a grid_scheme \<Rightarrow> int \<Rightarrow> int \<Rightarrow> 'a grid_scheme completion" where
  \<comment> \<open>\<^verbatim>\<open>placeInTable(y, x)\<close> appends the piece to the element with id \<^verbatim>\<open>`${y}-${x}`\<close>.
      \<^verbatim>\<open>makeHtmlBoard\<close> creates these for \<open>0 \<le> y < height\<close> and \<open>0 \<le> x < width\<close>; for any
      other id \<^verbatim>\<open>getElementById\<close> gives \<^verbatim>\<open>null\<close> and \<^verbatim>\<open>spot.append\<close> throws.\<close>
  "placeInTable g y x =
     (if 0 \<le> y \<and> y < height g \<and> 0 \<le> x \<and> x < width g then Returns g else Throws TypeError g)"

definition makeMove :: "'a grid_scheme \<Rightarrow> int \<Rightarrow> 'b player_scheme \<Rightarrow> 'a grid_scheme completion" where
  \<comment> \<open>\<^verbatim>\<open>Game.makeMove(x, player)\<close> of the human/computer variant.\<close>
  "makeMove g x p =
     (case findSpotForCol g x of
        Inl e \<Rightarrow> Throws e g
      | Inr None \<Rightarrow> Returns g
      | Inr (Some y) \<Rightarrow>
          (case store (board g) y x (Str (color p)) of
             Inl e \<Rightarrow> Throws e g
           | Inr b \<Rightarrow> placeInTable (g\<lparr>board := b\<rparr>) y x))"

definition put :: "'a grid_scheme \<Rightarrow> int \<Rightarrow> int \<Rightarrow> jsval \<Rightarrow> 'a grid_scheme" where
  \<comment> \<open>The grid after a successful \<^verbatim>\<open>board[y][x] = v\<close>.\<close>
  "put g y x v = g\<lparr>board := (board g)[nat y := aset (board g ! nat y) x v]\<rparr>"

definition isFull :: "'a grid_scheme \<Rightarrow> bool" where
  \<comment> \<open>The tie test \<^verbatim>\<open>this.board.every(row => row.every(cell => cell))\<close>.\<close>
  "isFull g = list_all (every truthy) (board g)"

section \<open>Win detection\<close>

text \<open>
  \<^verbatim>\<open>_win(cells)\<close> is \<^verbatim>\<open>cells.every(...)\<close>: it stops at the first cell that is out of
  bounds or does not hold the colour. The colour is \<^verbatim>\<open>this.currPlayer.color\<close> in the
  rotation variant and \<^verbatim>\<open>player.color\<close> in the human/computer variant; it is read only
  once a cell is in bounds, and reading it of an undefined player throws (\<open>None\<close>).
\<close>

definition win_cell :: "'a grid_scheme \<Rightarrow> string option \<Rightarrow> int \<times> int \<Rightarrow> error + bool" where
  "win_cell g tok p =
     (case p of (y, x) \<Rightarrow>
        if y \<ge> 0 \<and> y < height g \<and> x \<ge> 0 \<and> x < width g then
          (case cell (board g) y x of
             Inl e \<Rightarrow> Inl e
           | Inr v \<Rightarrow> (case tok of None \<Rightarrow> Inl TypeError | Some c \<Rightarrow> Inr (v = Str c)))
        else Inr False)"

fun win :: "'a grid_scheme \<Rightarrow> string option \<Rightarrow> (int \<times> int) list \<Rightarrow> error + bool" where
  "win g tok [] = Inr True"
| "win g tok (p # ps) =
     (case win_cell g tok p of
        Inl e \<Rightarrow> Inl e
      | Inr ok \<Rightarrow> if ok then win g tok ps else Inr False)"

definition horiz :: "int \<Rightarrow> int \<Rightarrow> (int \<times> int) list" where
  "horiz y x = [(y, x), (y, x + 1), (y, x + 2), (y, x + 3)]"

definition vert :: "int \<Rightarrow> int \<Rightarrow> (int \<times> int) list" where
  "vert y x = [(y, x), (y + 1, x), (y + 2, x), (y + 3, x)]"

definition diagDR :: "int \<Rightarrow> int \<Rightarrow> (int \<times> int) list" where
  "diagDR y x = [(y, x), (y + 1, x + 1), (y + 2, x + 2), (y + 3, x + 3)]"

definition diagDL :: "int \<Rightarrow> int \<Rightarrow> (int \<times> int) list" where
  "diagDL y x = [(y, x), (y + 1, x - 1), (y + 2, x - 2), (y + 3, x - 3)]"

definition orelse :: "error + bool \<Rightarrow> error + bool \<Rightarrow> error + bool" where
  \<comment> \<open>\<^verbatim>\<open>a || b\<close>: \<open>b\<close> is evaluated only when \<open>a\<close> is false.\<close>
  "orelse a b = (case a of Inl e \<Rightarrow> Inl e | Inr t \<Rightarrow> if t then Inr True else b)"

definition win_at :: "'a grid_scheme \<Rightarrow> string option \<Rightarrow> int \<Rightarrow> int \<Rightarrow> error + bool" where
  \<comment> \<open>The condition of the \<^verbatim>\<open>if\<close> in the loop body.\<close>
  "win_at g tok y x =
     orelse (orelse (orelse (win g tok (horiz y x)) (win g tok (vert y x)))
                    (win g tok (diagDR y x)))
            (win g tok (diagDL y x))"

function checkForWin_x :: "'a grid_scheme \<Rightarrow> string option \<Rightarrow> int \<Rightarrow> int \<Rightarrow> error + bool" where
  "checkForWin_x g tok y x =
     (if x < width g then
        (case win_at g tok y x of
           Inl e \<Rightarrow> Inl e
         | Inr t \<Rightarrow> if t then Inr True else checkForWin_x g tok y (x + 1))
      else Inr False)"
  by pat_completeness auto
termination
  by (relation "measure (\<lambda>(g, tok, y, x). nat (width g - x))") auto

function checkForWin_y :: "'a grid_scheme \<Rightarrow> string option \<Rightarrow> int \<Rightarrow> error + bool" where
  "checkForWin_y g tok y =
     (if y < height g then
        (case checkForWin_x g tok y 0 of
           Inl e \<Rightarrow> Inl e
         | Inr t \<Rightarrow> if t then Inr True else checkForWin_y g tok (y + 1))
      else Inr False)"
  by pat_completeness auto
termination
  by (relation "measure (\<lambda>(g, tok, y). nat (height g - y))") auto

definition checkForWin_tok :: "'a grid_scheme \<Rightarrow> string option \<Rightarrow> error + bool option" where
  \<comment> \<open>The body of \<^verbatim>\<open>checkForWin\<close>: \<^verbatim>\<open>return true\<close> inside the loops is \<open>Some True\<close>; when
      the loops end the function ends with no \<^verbatim>\<open>return\<close>, and the call gives
      \<^verbatim>\<open>undefined\<close>, which is \<open>None\<close>.\<close>
  "checkForWin_tok g tok =
     (case checkForWin_y g tok 0 of
        Inl e \<Rightarrow> Inl e
      | Inr t \<Rightarrow> Inr (if t then Some True else None))"

definition checkForWin :: "'a grid_scheme \<Rightarrow> 'b player_scheme \<Rightarrow> error + bool option" where
  \<comment> \<open>\<^verbatim>\<open>checkForWin(player)\<close> of the human/computer variant.\<close>
  "checkForWin g p = checkForWin_tok g (Some (color p))"

text \<open>
  The specification's reading of a win, for comparison with the code: a starting cell of
  the grid and one of four direction vectors such that the four cells
  \<open>(y + k * dy, x + k * dx)\<close>, \<open>k = 0..3\<close>, are all in bounds and all hold the token.
\<close>

definition spec_token_at :: "'a grid_scheme \<Rightarrow> string \<Rightarrow> int \<Rightarrow> int \<Rightarrow> bool" where
  "spec_token_at g c y x =
     (0 \<le> y \<and> y < height g \<and> 0 \<le> x \<and> x < width g \<and> cell (board g) y x = Inr (Str c))"

definition spec_directions :: "(int \<times> int) list" where
  "spec_directions = [(0, 1), (1, 0), (1, 1), (1, -1)]"

definition spec_line_wins :: "'a grid_scheme \<Rightarrow> string \<Rightarrow> int \<Rightarrow> int \<Rightarrow> int \<times> int \<Rightarrow> bool" where
  "spec_line_wins g c y x d =
     list_all (\<lambda>k. spec_token_at g c (y + k * fst d) (x + k * snd d)) [0, 1, 2, 3]"

definition spec_four_in_a_row :: "'a grid_scheme \<Rightarrow> string \<Rightarrow> bool" where
  "spec_four_in_a_row g c =
     list_ex (\<lambda>y. list_ex (\<lambda>x. list_ex (spec_line_wins g c y x) spec_directions)
                          [0..width g - 1])
             [0..height g - 1]"

section \<open>The page\<close>

text \<open>
  What the game keeps outside the grid and both variants share: whether its click
  listener is still on the row \<^verbatim>\<open>#column-top\<close> (\<^verbatim>\<open>makeHtmlBoard\<close> adds it, \<^verbatim>\<open>endGame\<close>
  removes it), and the messages \<^verbatim>\<open>endGame\<close> has passed to \<^verbatim>\<open>alert\<close>.
\<close>

record page = grid +
  listening :: bool
  alerts :: "string list"

definition endGame :: "'a page_scheme \<Rightarrow> string \<Rightarrow> 'a page_scheme" where
  "endGame g msg = g\<lparr>alerts := alerts g @ [msg], listening := False\<rparr>"

section \<open>The rotation variant\<close>

text \<open>
  \<^verbatim>\<open>players\<close> is the rest parameter of the constructor and \<^verbatim>\<open>currPlayer\<close> is
  \<^verbatim>\<open>players[0]\<close>, which is \<^verbatim>\<open>undefined\<close> (\<open>None\<close>) when no player was passed.
\<close>

record game = page +
  players :: "player option list"
  currPlayer :: "player option"

definition first_player :: "player option list \<Rightarrow> player option" where
  \<comment> \<open>\<^verbatim>\<open>this.players[0]\<close>\<close>
  "first_player ps = (case ps of [] \<Rightarrow> None | p # _ \<Rightarrow> p)"

definition Game :: "int \<Rightarrow> int \<Rightarrow> player option list \<Rightarrow> game" where
  "Game w h ps =
     makeBoard \<lparr>width = w, height = h, board = [], listening = True, alerts = [],
                players = ps, currPlayer = first_player ps\<rparr>"

function switchPlayers_from :: "player option list \<Rightarrow> nat \<Rightarrow> player option list" where
  "switchPlayers_from ps i =
     (if int i < int (length ps) - 1
      then switchPlayers_from (ps[i := ps ! (i + 1)]) (i + 1)
      else ps)"
  by pat_completeness auto
termination
  by (relation "measure (\<lambda>(ps, i). length ps - i)") auto

definition switchPlayers :: "game \<Rightarrow> game" where
  \<comment> \<open>With no players the write \<^verbatim>\<open>players[-1] = currPlayer\<close> sets a property that is
      never read and the array stays empty.\<close>
  "switchPlayers g =
     (let ps = switchPlayers_from (players g) 0;
          ps' = (if ps = [] then ps else ps[length ps - 1 := currPlayer g])
      in g\<lparr>players := ps', currPlayer := first_player ps'\<rparr>)"

definition checkForWin_curr :: "game \<Rightarrow> error + bool option" where
  \<comment> \<open>\<^verbatim>\<open>checkForWin()\<close> of the rotation variant.\<close>
  "checkForWin_curr g = checkForWin_tok g (map_option color (currPlayer g))"

definition handleClick :: "game \<Rightarrow> int \<Rightarrow> game completion" where
  "handleClick g x =
     (case findSpotForCol g x of
        Inl e \<Rightarrow> Throws e g
      | Inr None \<Rightarrow> Returns g
      | Inr (Some y) \<Rightarrow>
          (case currPlayer g of
             None \<Rightarrow> Throws TypeError g
           | Some p \<Rightarrow>
               (case store (board g) y x (Str (color p)) of
                  Inl e \<Rightarrow> Throws e g
                | Inr b \<Rightarrow>
                    (case placeInTable (g\<lparr>board := b\<rparr>) y x of
                       Throws e g1 \<Rightarrow> Throws e g1
                     | Returns g1 \<Rightarrow>
                         (case checkForWin_curr g1 of
                            Inl e \<Rightarrow> Throws e g1
                          | Inr w \<Rightarrow>
                              if w = Some True
                              then Returns (endGame g1 (color p @ '' player won!''))
                              else if isFull g1 then Returns (endGame g1 ''Tie!'')
                              else Returns (switchPlayers g1))))))"

definition click :: "game \<Rightarrow> int \<Rightarrow> game" where
  \<comment> \<open>A click on the column top \<open>x\<close>: the handler runs only while it is registered.\<close>
  "click g x = (if listening g then state_of (handleClick g x) else g)"

section \<open>Numbers\<close>

text \<open>
  \<^verbatim>\<open>Math.random()\<close> returns a double in \<open>[0, 1)\<close> and \<^verbatim>\<open>Math.random() * width\<close> is the
  exact product rounded to the nearest double, ties to even. A positive real is scaled
  by powers of two until it lies in \<open>[2\<^sup>5\<^sup>2, 2\<^sup>5\<^sup>3)\<close>, or until the exponent reaches
  that of the subnormal doubles (\<open>-1074\<close>) or of the largest ones (\<open>971\<close>); the scaled
  value is rounded to an integer, half to even, and scaled back. Results beyond the
  largest double (\<^verbatim>\<open>Infinity\<close>) are not modelled. A real is a double when rounding leaves
  it unchanged.
\<close>

definition pow2 :: "int \<Rightarrow> real" where
  "pow2 q = (if 0 \<le> q then 2 ^ nat q else (1 / 2) ^ nat (- q))"

function scale_up :: "real \<Rightarrow> int \<Rightarrow> real \<times> int" where
  "scale_up y q =
     (if 9007199254740992 \<le> y \<and> q < 971 then scale_up (y / 2) (q + 1) else (y, q))"
  by pat_completeness auto
termination
  by (relation "measure (\<lambda>(y, q). nat (971 - q))") auto

function scale_down :: "real \<Rightarrow> int \<Rightarrow> real \<times> int" where
  "scale_down y q =
     (if y < 4503599627370496 \<and> - 1074 < q then scale_down (2 * y) (q - 1) else (y, q))"
  by pat_completeness auto
termination
  by (relation "measure (\<lambda>(y, q). nat (q + 1074))") auto

definition scale :: "real \<Rightarrow> real \<times> int" where
  \<comment> \<open>\<open>scale x = (y, q)\<close> with \<open>x = y * 2\<^sup>q\<close>; \<open>2\<^sup>5\<^sup>3\<close> is 9007199254740992.\<close>
  "scale x = (if 9007199254740992 \<le> x then scale_up x 0 else scale_down x 0)"

definition round_half_even :: "real \<Rightarrow> int" where
  "round_half_even y =
     (if y - of_int \<lfloor>y\<rfloor> < 1 / 2 then \<lfloor>y\<rfloor>
      else if 1 / 2 < y - of_int \<lfloor>y\<rfloor> then \<lfloor>y\<rfloor> + 1
      else if even \<lfloor>y\<rfloor> then \<lfloor>y\<rfloor> else \<lfloor>y\<rfloor> + 1)"

definition round_double :: "real \<Rightarrow> real" where
  "round_double x =
     (if x = 0 then 0
      else case scale \<bar>x\<bar> of (y, q) \<Rightarrow> sgn x * of_int (round_half_even y) * pow2 q)"

definition is_double :: "real \<Rightarrow> bool" where
  "is_double x = (round_double x = x)"

section \<open>The human/computer variant\<close>

record named_player = player +
  name :: string

text \<open>
  The field \<^verbatim>\<open>currPlayer\<close> of this variant, which always holds the human player, is
  \<open>currPlayer_hc\<close> here. \<open>pending\<close> counts the computer replies that \<^verbatim>\<open>setTimeout\<close> has
  scheduled and that have not run yet.
\<close>

record game_hc = page +
  currPlayer_hc :: named_player
  compPlayer :: named_player
  canClick :: bool
  pending :: nat

definition Game_hc :: "int \<Rightarrow> int \<Rightarrow> string \<Rightarrow> string \<Rightarrow> game_hc" where
  "Game_hc w h playerColor compColor =
     makeBoard \<lparr>width = w, height = h, board = [], listening = True, alerts = [],
                currPlayer_hc = \<lparr>color = playerColor, name = ''Player''\<rparr>,
                compPlayer = \<lparr>color = compColor, name = ''Computer''\<rparr>,
                canClick = True, pending = 0\<rparr>"

definition evaluateGame :: "'a page_scheme \<Rightarrow> named_player \<Rightarrow> 'a page_scheme completion" where
  "evaluateGame g p =
     (case checkForWin g p of
        Inl e \<Rightarrow> Throws e g
      | Inr w \<Rightarrow>
          if w = Some True then Returns (endGame g (''The '' @ name p @ '' won!''))
          else if isFull g then Returns (endGame g ''Tie!'')
          else Returns g)"

definition ComputerPlayer_makeMove :: "int \<Rightarrow> real \<Rightarrow> int" where
  \<comment> \<open>\<^verbatim>\<open>makeMove(width) { return Math.floor(Math.random() * width); }\<close>, with \<open>r\<close> the
      draw of \<^verbatim>\<open>Math.random()\<close>; the product is rounded to a double.\<close>
  "ComputerPlayer_makeMove w r = \<lfloor>round_double (r * of_int w)\<rfloor>"

definition handleClick_hc :: "game_hc \<Rightarrow> int \<Rightarrow> game_hc completion" where
  "handleClick_hc g x =
     (if canClick g then
        (case makeMove g x (currPlayer_hc g) of
           Throws e g1 \<Rightarrow> Throws e g1
         | Returns g1 \<Rightarrow>
             (case evaluateGame g1 (currPlayer_hc g1) of
                Throws e g2 \<Rightarrow> Throws e g2
              | Returns g2 \<Rightarrow> Returns (g2\<lparr>canClick := False, pending := pending g2 + 1\<rparr>)))
      else Returns g)"

definition computerReply :: "game_hc \<Rightarrow> real \<Rightarrow> game_hc completion" where
  \<comment> \<open>The callback that \<^verbatim>\<open>handleClick\<close> passes to \<^verbatim>\<open>setTimeout\<close>.\<close>
  "computerReply g r =
     (case makeMove g (ComputerPlayer_makeMove (width g) r) (compPlayer g) of
        Throws e g1 \<Rightarrow> Throws e g1
      | Returns g1 \<Rightarrow>
          (case evaluateGame g1 (compPlayer g1) of
             Throws e g2 \<Rightarrow> Throws e g2
           | Returns g2 \<Rightarrow> Returns (g2\<lparr>canClick := True\<rparr>)))"

datatype event = Click int | Timeout real

fun step :: "game_hc \<Rightarrow> event \<Rightarrow> game_hc" where
  "step g (Click x) = (if listening g then state_of (handleClick_hc g x) else g)"
| "step g (Timeout r) =
     (if pending g = 0 then g else state_of (computerReply (g\<lparr>pending := pending g - 1\<rparr>) r))"

definition run :: "game_hc \<Rightarrow> event list \<Rightarrow> game_hc" where
  "run g es = foldl step g es"

section \<open>What a game keeps\<close>

text \<open>
  The requests that name a column of the board: a click on one of the column tops, whose
  ids \<^verbatim>\<open>makeHtmlBoard\<close> sets to \<open>0 .. width - 1\<close>, and a timeout whose callback draws
  \<^verbatim>\<open>Math.random()\<close>, a double in \<open>[0, 1)\<close>. The handlers themselves accept any column
  index.
\<close>

fun valid_event :: "int \<Rightarrow> event \<Rightarrow> bool" where
  "valid_event w (Click x) = (0 \<le> x \<and> x < w)"
| "valid_event w (Timeout r) = (is_double r \<and> 0 \<le> r \<and> r < 1)"

definition truthy_kept :: "'a grid_scheme \<Rightarrow> 'b grid_scheme \<Rightarrow> bool" where
  \<comment> \<open>\<open>g'\<close> has the dimensions of \<open>g\<close> (\<^verbatim>\<open>width\<close>, \<^verbatim>\<open>height\<close> and the length of every
      row), and every cell of \<open>g\<close> that holds a truthy value holds the same value in \<open>g'\<close>.
      Nothing is said of a cell that holds \<^verbatim>\<open>undefined\<close> or the empty string.\<close>
  "truthy_kept g g' =
     (width g' = width g \<and> height g' = height g \<and>
      map alength (board g') = map alength (board g) \<and>
      list_all (\<lambda>y. list_all (\<lambda>x. \<not> occupied g y x \<or> cell (board g') y x = cell (board g) y x)
                              [0..width g - 1])
               [0..height g - 1])"

declare makeBoard_from.simps [simp del]
declare findSpotForCol_from.simps [simp del]
declare checkForWin_x.simps [simp del]
declare checkForWin_y.simps [simp del]
declare switchPlayers_from.simps [simp del]
declare scale_up.simps [simp del]
declare scale_down.simps [simp del]

section \<open>Reading a well-formed grid\<close>

lemma row_wf: "wf_grid g \<Longrightarrow> 0 \<le> y \<Longrightarrow> y < height g \<Longrightarrow> row (board g) y = Some (board g ! nat y)"
  by (auto simp: wf_grid_def row_def)

lemma cell_wf: "wf_grid g \<Longrightarrow> 0 \<le> y \<Longrightarrow> y < height g \<Longrightarrow> cell (board g) y x = Inr (aget (board g ! nat y) x)"
  by (simp add: cell_def row_wf)

lemma occupied_wf: "wf_grid g \<Longrightarrow> 0 \<le> y \<Longrightarrow> y < height g \<Longrightarrow> occupied g y x = truthy (aget (board g ! nat y) x)"
  by (simp add: occupied_def cell_wf)

lemma find_from_step:
  "wf_grid g \<Longrightarrow> 0 \<le> y \<Longrightarrow> y < height g \<Longrightarrow>
   findSpotForCol_from g x y = (if occupied g y x then findSpotForCol_from g x (y - 1) else Inr (Some y))"
  by (subst findSpotForCol_from.simps) (simp add: cell_wf occupied_def)

lemma find_from_neg: "y < 0 \<Longrightarrow> findSpotForCol_from g x y = Inr None"
  by (subst findSpotForCol_from.simps) simp

lemma find_from_None:
  "wf_grid g \<Longrightarrow> y < height g \<Longrightarrow>
   (findSpotForCol_from g x y = Inr None) = (\<forall>y'. 0 \<le> y' \<and> y' \<le> y \<longrightarrow> occupied g y' x)"
proof (induction g x y rule: findSpotForCol_from.induct)
  case (1 g x y)
  show ?case
  proof (cases "y \<ge> 0")
    case False
    then show ?thesis by (auto simp: find_from_neg)
  next
    case True
    show ?thesis
    proof (cases "occupied g y x")
      case False
      with True 1(2,3) show ?thesis by (auto simp: find_from_step)
    next
      case t: True
      have c: "cell (board g) y x = Inr (aget (board g ! nat y) x)" using 1(2,3) True by (simp add: cell_wf)
      have "truthy (aget (board g ! nat y) x)" using t c by (simp add: occupied_def)
      then have ih: "(findSpotForCol_from g x (y - 1) = Inr None) = (\<forall>y'. 0 \<le> y' \<and> y' \<le> y - 1 \<longrightarrow> occupied g y' x)"
        using 1 True c by simp
      have "(\<forall>y'. 0 \<le> y' \<and> y' \<le> y \<longrightarrow> occupied g y' x) = (\<forall>y'. 0 \<le> y' \<and> y' \<le> y - 1 \<longrightarrow> occupied g y' x)"
      proof -
        have "\<And>y'. y' \<le> y \<longleftrightarrow> y' \<le> y - 1 \<or> y' = y" by auto
        then show ?thesis using t by auto
      qed
      then show ?thesis using ih t True 1(2,3) by (simp add: find_from_step)
    qed
  qed
qed

lemma find_from_Some:
  "wf_grid g \<Longrightarrow> y < height g \<Longrightarrow>
   (findSpotForCol_from g x y = Inr (Some r)) =
   (0 \<le> r \<and> r \<le> y \<and> \<not> occupied g r x \<and> (\<forall>y'. r < y' \<and> y' \<le> y \<longrightarrow> occupied g y' x))"
proof (induction g x y rule: findSpotForCol_from.induct)
  case (1 g x y)
  show ?case
  proof (cases "y \<ge> 0")
    case False
    then show ?thesis by (auto simp: find_from_neg)
  next
    case True
    show ?thesis
    proof (cases "occupied g y x")
      case False
      have "findSpotForCol_from g x y = Inr (Some y)" using False True 1(2,3) by (simp add: find_from_step)
      moreover have "(0 \<le> r \<and> r \<le> y \<and> \<not> occupied g r x \<and> (\<forall>y'. r < y' \<and> y' \<le> y \<longrightarrow> occupied g y' x)) = (r = y)"
        using False True by (auto simp: not_less order_le_less)
      ultimately show ?thesis by auto
    next
      case t: True
      have c: "cell (board g) y x = Inr (aget (board g ! nat y) x)" using 1(2,3) True by (simp add: cell_wf)
      have "truthy (aget (board g ! nat y) x)" using t c by (simp add: occupied_def)
      then have ih: "(findSpotForCol_from g x (y - 1) = Inr (Some r)) =
         (0 \<le> r \<and> r \<le> y - 1 \<and> \<not> occupied g r x \<and> (\<forall>y'. r < y' \<and> y' \<le> y - 1 \<longrightarrow> occupied g y' x))"
        using 1 True c by simp
      have "(0 \<le> r \<and> r \<le> y \<and> \<not> occupied g r x \<and> (\<forall>y'. r < y' \<and> y' \<le> y \<longrightarrow> occupied g y' x)) =
            (0 \<le> r \<and> r \<le> y - 1 \<and> \<not> occupied g r x \<and> (\<forall>y'. r < y' \<and> y' \<le> y - 1 \<longrightarrow> occupied g y' x))"
      proof -
        have "\<And>y'. y' \<le> y \<longleftrightarrow> y' \<le> y - 1 \<or> y' = y" by auto
        then show ?thesis using t by auto
      qed
      then show ?thesis using ih t True 1(2,3) by (simp add: find_from_step)
    qed
  qed
qed

lemma find_from_total:
  "wf_grid g \<Longrightarrow> y < height g \<Longrightarrow> \<exists>r. findSpotForCol_from g x y = Inr r"
proof (induction g x y rule: findSpotForCol_from.induct)
  case (1 g x y)
  show ?case
  proof (cases "y \<ge> 0")
    case False
    then show ?thesis by (auto simp: find_from_neg)
  next
    case True
    have c: "cell (board g) y x = Inr (aget (board g ! nat y) x)" using 1(2,3) True by (simp add: cell_wf)
    show ?thesis using 1 True c by (subst findSpotForCol_from.simps) auto
  qed
qed


lemma findSpot_range:
  "wf_grid g \<Longrightarrow> findSpotForCol g x = Inr (Some y) \<Longrightarrow> 0 \<le> y \<and> y < height g"
  by (auto simp: findSpotForCol_def find_from_Some)

lemma makeMove_wf:
  assumes "wf_grid g" "0 \<le> x" "x < width g"
  shows "makeMove g x p =
     (case findSpotForCol g x of
        Inl e \<Rightarrow> Throws e g
      | Inr None \<Rightarrow> Returns g
      | Inr (Some y) \<Rightarrow> Returns (put g y x (Str (color p))))"
proof (cases "findSpotForCol g x")
  case (Inl e)
  then show ?thesis by (simp add: makeMove_def)
next
  case (Inr r)
  show ?thesis
  proof (cases r)
    case None
    with Inr show ?thesis by (simp add: makeMove_def)
  next
    case (Some y)
    with Inr assms have y: "0 \<le> y" "y < height g" using findSpot_range by blast+
    with assms Inr Some show ?thesis
      by (simp add: makeMove_def store_def row_wf placeInTable_def put_def)
  qed
qed

lemma wf_row_aset: "wf_row w a \<Longrightarrow> 0 \<le> x \<Longrightarrow> x < w \<Longrightarrow> wf_row w (aset a x v)"
  by (auto simp: wf_row_def aset_def list_all_iff array_index_def)

lemma wf_put: "wf_grid g \<Longrightarrow> 0 \<le> x \<Longrightarrow> x < width g \<Longrightarrow> 0 \<le> y \<Longrightarrow> y < height g \<Longrightarrow> wf_grid (put g y x v)"
  unfolding wf_grid_def put_def
  by (auto simp: list_all_length nth_list_update wf_row_aset)

lemma aget_aset: "aget (aset a x v) x' = (if x' = x then v else aget a x')"
  by (simp add: aget_def aset_def)

lemma occupied_put:
  assumes "wf_grid g" "0 \<le> y" "y < height g" "0 \<le> y'" "y' < height g" "0 \<le> x" "x < width g"
  shows "occupied (put g y x v) y' x' = (if y' = y \<and> x' = x then truthy v else occupied g y' x')"
proof -
  have w: "wf_grid (put g y x v)" using assms by (simp add: wf_put)
  have h: "height (put g y x v) = height g" by (simp add: put_def)
  have l: "nat y < length (board g)" using assms by (simp add: wf_grid_def)
  have "occupied (put g y x v) y' x' = truthy (aget (board (put g y x v) ! nat y') x')"
    using w h assms by (simp add: occupied_wf)
  also have "\<dots> = (if y' = y \<and> x' = x then truthy v else truthy (aget (board g ! nat y') x'))"
    using assms l by (auto simp: put_def nth_list_update aget_aset)
  finally show ?thesis using assms by (simp add: occupied_wf)
qed

lemma filled_from_iff:
  "0 \<le> r \<Longrightarrow> filled_from g x r =
     ((\<forall>y. 0 \<le> y \<and> y < r \<longrightarrow> \<not> occupied g y x) \<and> (\<forall>y. r \<le> y \<and> y < height g \<longrightarrow> occupied g y x))"
proof -
  assume r: "0 \<le> r"
  have a: "list_all (\<lambda>k. \<not> occupied g (int k) x) [0..<nat r] = (\<forall>y. 0 \<le> y \<and> y < r \<longrightarrow> \<not> occupied g y x)"
  proof
    assume l: "list_all (\<lambda>k. \<not> occupied g (int k) x) [0..<nat r]"
    show "\<forall>y. 0 \<le> y \<and> y < r \<longrightarrow> \<not> occupied g y x"
    proof (intro allI impI)
      fix y assume "0 \<le> y \<and> y < r"
      then have "nat y \<in> set [0..<nat r]" "int (nat y) = y" by auto
      with l show "\<not> occupied g y x" unfolding list_all_iff by (metis (full_types))
    qed
  next
    assume "\<forall>y. 0 \<le> y \<and> y < r \<longrightarrow> \<not> occupied g y x"
    then show "list_all (\<lambda>k. \<not> occupied g (int k) x) [0..<nat r]" by (auto simp: list_all_iff)
  qed
  have b: "list_all (\<lambda>k. occupied g (int k) x) [nat r..<nat (height g)] = (\<forall>y. r \<le> y \<and> y < height g \<longrightarrow> occupied g y x)"
  proof
    assume l: "list_all (\<lambda>k. occupied g (int k) x) [nat r..<nat (height g)]"
    show "\<forall>y. r \<le> y \<and> y < height g \<longrightarrow> occupied g y x"
    proof (intro allI impI)
      fix y assume "r \<le> y \<and> y < height g"
      with r have "nat y \<in> set [nat r..<nat (height g)]" "int (nat y) = y" by auto
      with l show "occupied g y x" unfolding list_all_iff by (metis (full_types))
    qed
  next
    assume a: "\<forall>y. r \<le> y \<and> y < height g \<longrightarrow> occupied g y x"
    show "list_all (\<lambda>k. occupied g (int k) x) [nat r..<nat (height g)]"
      unfolding list_all_iff
    proof
      fix k assume "k \<in> set [nat r..<nat (height g)]"
      with r have "r \<le> int k \<and> int k < height g" by auto
      with a show "occupied g (int k) x" by blast
    qed
  qed
  show ?thesis by (simp add: filled_from_def a b)
qed

lemma findSpot_None:
  "wf_grid g \<Longrightarrow> (findSpotForCol g x = Inr None) = (\<forall>y. 0 \<le> y \<and> y < height g \<longrightarrow> occupied g y x)"
  by (auto simp: findSpotForCol_def find_from_None)

lemma findSpot_Some:
  "wf_grid g \<Longrightarrow> (findSpotForCol g x = Inr (Some r)) =
     (0 \<le> r \<and> r < height g \<and> \<not> occupied g r x \<and> (\<forall>y. r < y \<and> y < height g \<longrightarrow> occupied g y x))"
  by (auto simp: findSpotForCol_def find_from_Some)

lemma findSpot_filled_from:
  "wf_grid g \<Longrightarrow> 0 \<le> r \<Longrightarrow> r \<le> height g \<Longrightarrow> filled_from g x r \<Longrightarrow>
   findSpotForCol g x = Inr (if r = 0 then None else Some (r - 1))"
  by (auto simp: filled_from_iff findSpot_None findSpot_Some)

lemma makeMove_filled_from:
  assumes "wf_grid g" "0 \<le> x" "x < width g" "0 < r" "r \<le> height g" "filled_from g x r" "color p \<noteq> []"
  shows "wf_grid (state_of (makeMove g x p)) \<and> filled_from (state_of (makeMove g x p)) x (r - 1)
     \<and> height (state_of (makeMove g x p)) = height g \<and> width (state_of (makeMove g x p)) = width g"
proof -
  have f: "findSpotForCol g x = Inr (Some (r - 1))" using assms findSpot_filled_from[of g r x] by simp
  then have m: "state_of (makeMove g x p) = put g (r - 1) x (Str (color p))"
    using assms by (simp add: makeMove_wf)
  have w: "wf_grid (put g (r - 1) x (Str (color p)))" using assms by (simp add: wf_put)
  have h: "height (put g (r - 1) x (Str (color p))) = height g" "width (put g (r - 1) x (Str (color p))) = width g"
    by (simp_all add: put_def)
  have "filled_from (put g (r - 1) x (Str (color p))) x (r - 1)"
    using assms by (auto simp: filled_from_iff h occupied_put)
  with w h m show ?thesis by simp
qed

lemma drops_full:
  "wf_grid g \<Longrightarrow> 0 \<le> x \<Longrightarrow> x < width g \<Longrightarrow> 0 \<le> r \<Longrightarrow> r \<le> height g \<Longrightarrow> filled_from g x r \<Longrightarrow>
   length ps = nat r \<Longrightarrow> list_all (\<lambda>p. color p \<noteq> []) ps \<Longrightarrow>
   findSpotForCol (foldl (\<lambda>g p. state_of (makeMove g x p)) g ps) x = Inr None"
proof (induction ps arbitrary: g r)
  case Nil
  then show ?case using findSpot_filled_from[of g r x] by simp
next
  case (Cons p ps)
  then have r: "0 < r" by auto
  let ?g = "state_of (makeMove g x p)"
  have s: "wf_grid ?g \<and> filled_from ?g x (r - 1) \<and> height ?g = height g \<and> width ?g = width g"
    using Cons.prems r by (intro makeMove_filled_from) auto
  have "findSpotForCol (foldl (\<lambda>g p. state_of (makeMove g x p)) ?g ps) x = Inr None"
    using Cons.prems s r by (intro Cons.IH[of ?g "r - 1"]) auto
  then show ?case by simp
qed

lemmas eval_grid =
  makeBoard_def makeBoard_from.simps array_from_def wf_grid_def wf_row_def
  findSpotForCol_def findSpotForCol_from.simps cell_def row_def aget_def aset_def store_def
  makeMove_def placeInTable_def occupied_def array_index_def upt_rec upto.simps

section \<open>The landing row\<close>

text \<open>
  Claim C2, as amended. On a well-formed grid and for a column \<open>x\<close> in \<open>[0, width)\<close>,
  \<^verbatim>\<open>findSpotForCol(x)\<close> throws nothing; it returns \<open>y\<close> exactly when \<open>y\<close> is the largest row
  index in \<open>[0, height)\<close> whose cell in column \<open>x\<close> is unoccupied (falsy), and \<^verbatim>\<open>null\<close>
  exactly when every cell of the column is occupied. On an empty column of a grid of
  positive height \<open>H\<close> it returns \<open>H - 1\<close>, and after \<open>H\<close> placements of non-empty colours
  by \<^verbatim>\<open>makeMove\<close> in that column it returns \<^verbatim>\<open>null\<close>.
\<close>

theorem findSpotForCol_lowest_unoccupied:
  assumes "wf_grid g" and "0 \<le> x" and "x < width g"
  shows "(\<exists>r. findSpotForCol g x = Inr r) \<and>
    ((findSpotForCol g x = Inr (Some y)) =
       (0 \<le> y \<and> y < height g \<and> \<not> occupied g y x \<and>
        (\<forall>y'. 0 \<le> y' \<and> y' < height g \<and> \<not> occupied g y' x \<longrightarrow> y' \<le> y))) \<and>
    ((findSpotForCol g x = Inr None) = (\<forall>y'. 0 \<le> y' \<and> y' < height g \<longrightarrow> occupied g y' x)) \<and>
    (0 < height g \<and> (\<forall>y'. 0 \<le> y' \<and> y' < height g \<longrightarrow> \<not> occupied g y' x) \<longrightarrow>
       findSpotForCol g x = Inr (Some (height g - 1)) \<and>
       (length ps = nat (height g) \<and> list_all (\<lambda>p. color p \<noteq> []) ps \<longrightarrow>
          findSpotForCol (foldl (\<lambda>g p. state_of (makeMove g x p)) g ps) x = Inr None))"
proof -
  have total: "\<exists>r. findSpotForCol g x = Inr r"
    using assms(1) by (simp add: findSpotForCol_def find_from_total)
  have some: "(findSpotForCol g x = Inr (Some y)) =
       (0 \<le> y \<and> y < height g \<and> \<not> occupied g y x \<and>
        (\<forall>y'. 0 \<le> y' \<and> y' < height g \<and> \<not> occupied g y' x \<longrightarrow> y' \<le> y))"
  proof -
    have "(\<forall>y'. y < y' \<and> y' < height g \<longrightarrow> occupied g y' x) =
          (\<forall>y'. 0 \<le> y' \<and> y' < height g \<and> \<not> occupied g y' x \<longrightarrow> y' \<le> y)" if "0 \<le> y"
      using that by (meson linorder_not_less order_less_le_trans order_less_imp_le)
    then show ?thesis using assms(1) by (auto simp: findSpot_Some)
  qed
  have none: "(findSpotForCol g x = Inr None) = (\<forall>y'. 0 \<le> y' \<and> y' < height g \<longrightarrow> occupied g y' x)"
    using assms(1) by (rule findSpot_None)
  have empty: "findSpotForCol g x = Inr (Some (height g - 1)) \<and>
       (length ps = nat (height g) \<and> list_all (\<lambda>p. color p \<noteq> []) ps \<longrightarrow>
          findSpotForCol (foldl (\<lambda>g p. state_of (makeMove g x p)) g ps) x = Inr None)"
    if h: "0 < height g" and e: "\<forall>y'. 0 \<le> y' \<and> y' < height g \<longrightarrow> \<not> occupied g y' x"
  proof -
    have lf: "filled_from g x (height g)" using h e by (simp add: filled_from_iff)
    have "findSpotForCol g x = Inr (Some (height g - 1))"
      using findSpot_filled_from[OF assms(1) _ _ lf] h by simp
    moreover have "findSpotForCol (foldl (\<lambda>g p. state_of (makeMove g x p)) g ps) x = Inr None"
      if "length ps = nat (height g)" "list_all (\<lambda>p. color p \<noteq> []) ps"
      using drops_full[OF assms _ _ lf that] h by simp
    ultimately show ?thesis by blast
  qed
  from total some none empty show ?thesis by blast
qed

theorem findSpotForCol_lowest_unoccupied_witness:
  "wf_grid (makeBoard \<lparr>width = 1, height = 2, board = []\<rparr>) \<and>
   findSpotForCol (makeBoard \<lparr>width = 1, height = 2, board = []\<rparr>) 0 = Inr (Some 1) \<and>
   findSpotForCol
     (foldl (\<lambda>g p. state_of (makeMove g 0 p)) (makeBoard \<lparr>width = 1, height = 2, board = []\<rparr>)
        [\<lparr>color = ''red''\<rparr>, \<lparr>color = ''blue''\<rparr>]) 0 = Inr None"
proof -
  let ?g = "makeBoard \<lparr>width = 1, height = 2, board = []\<rparr>"
  have w: "wf_grid ?g" by (simp add: eval_grid)
  have x: "(0::int) \<le> 0" "0 < width ?g" by (simp_all add: makeBoard_def)
  have h: "height ?g = 2" by (simp add: makeBoard_def)
  have e: "\<forall>y'. 0 \<le> y' \<and> y' < height ?g \<longrightarrow> \<not> occupied ?g y' 0"
  proof (intro allI impI)
    fix y' :: int assume "0 \<le> y' \<and> y' < height ?g"
    then have "y' = 0 \<or> y' = 1" using h by auto
    then show "\<not> occupied ?g y' 0" by (auto simp: eval_grid)
  qed
  show ?thesis
    using findSpotForCol_lowest_unoccupied[OF w x, of 1 "[\<lparr>color = ''red''\<rparr>, \<lparr>color = ''blue''\<rparr>]"] w e h
    by simp
qed

text \<open>
  The claim as stated fails for the empty colour: a grid of height 1 whose only column
  is empty receives one placement of the colour \<^verbatim>\<open>""\<close>; the cell then holds a falsy
  value and \<^verbatim>\<open>findSpotForCol\<close> returns row 0 again, not \<^verbatim>\<open>null\<close>.
\<close>

theorem findSpotForCol_empty_colour_counterexample:
  "\<not> occupied (makeBoard \<lparr>width = 1, height = 1, board = []\<rparr>) 0 0 \<and>
   findSpotForCol
     (foldl (\<lambda>g p. state_of (makeMove g 0 p)) (makeBoard \<lparr>width = 1, height = 1, board = []\<rparr>)
        [\<lparr>color = ''''\<rparr>]) 0 = Inr (Some 0) \<and>
   findSpotForCol
     (foldl (\<lambda>g p. state_of (makeMove g 0 p)) (makeBoard \<lparr>width = 1, height = 1, board = []\<rparr>)
        [\<lparr>color = ''''\<rparr>]) 0 \<noteq> Inr None"
  by (simp add: eval_grid)

section \<open>Win detection on a well-formed grid\<close>

lemma win_cell_wf:
  "wf_grid g \<Longrightarrow> win_cell g (Some c) (y, x) = Inr (spec_token_at g c y x)"
  by (auto simp: win_cell_def spec_token_at_def cell_wf)

lemma win_wf:
  "wf_grid g \<Longrightarrow> win g (Some c) ps = Inr (list_all (\<lambda>(y, x). spec_token_at g c y x) ps)"
  by (induction ps) (auto simp: win_cell_wf)

lemma orelse_Inr [simp]: "orelse (Inr a) (Inr b) = Inr (a \<or> b)"
  by (simp add: orelse_def)

lemma win_at_wf:
  "wf_grid g \<Longrightarrow> win_at g (Some c) y x = Inr (list_ex (spec_line_wins g c y x) spec_directions)"
  unfolding win_at_def
  by (simp only: win_wf orelse_Inr)
     (simp add: horiz_def vert_def diagDR_def diagDL_def spec_line_wins_def spec_directions_def)

lemma checkForWin_x_wf:
  "wf_grid g \<Longrightarrow>
   checkForWin_x g (Some c) y x =
     Inr (\<exists>x'. x \<le> x' \<and> x' < width g \<and> list_ex (spec_line_wins g c y x') spec_directions)"
proof (induction g "Some c" y x rule: checkForWin_x.induct)
  case (1 g y x)
  show ?case
  proof (cases "x < width g")
    case False
    then show ?thesis by (subst checkForWin_x.simps) auto
  next
    case True
    show ?thesis
    proof (cases "list_ex (spec_line_wins g c y x) spec_directions")
      case t: True
      with True 1(2) show ?thesis
        by (subst checkForWin_x.simps) (auto simp: win_at_wf)
    next
      case f: False
      have ih: "checkForWin_x g (Some c) y (x + 1) =
        Inr (\<exists>x'. x + 1 \<le> x' \<and> x' < width g \<and> list_ex (spec_line_wins g c y x') spec_directions)"
        using 1 True f by (simp add: win_at_wf)
      have "(\<exists>x'. x + 1 \<le> x' \<and> x' < width g \<and> list_ex (spec_line_wins g c y x') spec_directions) =
            (\<exists>x'. x \<le> x' \<and> x' < width g \<and> list_ex (spec_line_wins g c y x') spec_directions)"
      proof -
        have "\<And>x'. x \<le> x' \<longleftrightarrow> x + 1 \<le> x' \<or> x' = x" by auto
        then show ?thesis using f by auto
      qed
      with ih True f 1(2) show ?thesis
        by (subst checkForWin_x.simps) (simp add: win_at_wf)
    qed
  qed
qed

lemma checkForWin_y_wf:
  "wf_grid g \<Longrightarrow>
   checkForWin_y g (Some c) y =
     Inr (\<exists>y'. y \<le> y' \<and> y' < height g \<and>
            (\<exists>x'. 0 \<le> x' \<and> x' < width g \<and> list_ex (spec_line_wins g c y' x') spec_directions))"
proof (induction g "Some c" y rule: checkForWin_y.induct)
  case (1 g y)
  let ?R = "\<lambda>y'. \<exists>x'. 0 \<le> x' \<and> x' < width g \<and> list_ex (spec_line_wins g c y' x') spec_directions"
  show ?case
  proof (cases "y < height g")
    case False
    then show ?thesis by (subst checkForWin_y.simps) auto
  next
    case True
    show ?thesis
    proof (cases "?R y")
      case t: True
      with True 1(2) show ?thesis
        by (subst checkForWin_y.simps) (auto simp: checkForWin_x_wf)
    next
      case f: False
      have cx: "checkForWin_x g (Some c) y 0 = Inr False"
        using f 1(2) by (simp add: checkForWin_x_wf)
      have ih: "checkForWin_y g (Some c) (y + 1) = Inr (\<exists>y'. y + 1 \<le> y' \<and> y' < height g \<and> ?R y')"
        using 1(1)[OF True cx _ 1(2)] by simp
      have eq: "(\<exists>y'. y + 1 \<le> y' \<and> y' < height g \<and> ?R y') = (\<exists>y'. y \<le> y' \<and> y' < height g \<and> ?R y')"
      proof -
        have "\<And>y'. y \<le> y' \<longleftrightarrow> y + 1 \<le> y' \<or> y' = y" by auto
        then show ?thesis using f by auto
      qed
      have "checkForWin_y g (Some c) y = checkForWin_y g (Some c) (y + 1)"
        using True cx by (subst checkForWin_y.simps) simp
      with ih eq show ?thesis by simp
    qed
  qed
qed

lemma spec_four_in_a_row_iff:
  "spec_four_in_a_row g c =
     (\<exists>y. 0 \<le> y \<and> y < height g \<and>
        (\<exists>x. 0 \<le> x \<and> x < width g \<and> list_ex (spec_line_wins g c y x) spec_directions))"
proof -
  have a: "\<And>P h. list_ex P [0..h - 1] = (\<exists>y. 0 \<le> y \<and> y < h \<and> P y)"
  proof -
    fix P :: "int \<Rightarrow> bool" and h :: int
    have "\<And>y. (y \<in> set [0..h - 1]) = (0 \<le> y \<and> y < h)" by auto
    then show "list_ex P [0..h - 1] = (\<exists>y. 0 \<le> y \<and> y < h \<and> P y)"
      unfolding list_ex_iff Bex_def by (simp add: conj_assoc)
  qed
  show ?thesis unfolding spec_four_in_a_row_def a ..
qed

lemma checkForWin_tok_wf:
  "wf_grid g \<Longrightarrow>
   checkForWin_tok g (Some c) = Inr (if spec_four_in_a_row g c then Some True else None)"
  by (simp add: checkForWin_tok_def checkForWin_y_wf spec_four_in_a_row_iff)

lemmas eval_win =
  win_cell_def win.simps horiz_def vert_def diagDR_def diagDL_def orelse_def win_at_def
  checkForWin_x.simps checkForWin_y.simps checkForWin_tok_def checkForWin_def

text \<open>
  Claim C1, as amended. On a well-formed grid \<^verbatim>\<open>checkForWin(player)\<close> throws nothing
  and returns \<^verbatim>\<open>true\<close> if and only if some starting cell of the grid and one of the four
  directions (right, down, down-right, down-left) give four cells that all lie within
  the grid and all hold the player's colour; a cell out of bounds disqualifies its line.
  When no line is satisfied the function ends without a \<^verbatim>\<open>return\<close>: the call gives
  \<^verbatim>\<open>undefined\<close>, never \<^verbatim>\<open>false\<close>. The same holds of \<^verbatim>\<open>checkForWin()\<close> of the rotation
  variant for the colour of the current player.
\<close>

theorem checkForWin_iff_four_in_a_row:
  assumes "wf_grid g"
  shows "checkForWin g p = Inr (if spec_four_in_a_row g (color p) then Some True else None) \<and>
    ((checkForWin g p = Inr (Some True)) = spec_four_in_a_row g (color p)) \<and>
    (wf_grid ga \<and> currPlayer ga = Some q \<longrightarrow>
       checkForWin_curr ga = Inr (if spec_four_in_a_row ga (color q) then Some True else None))"
  using assms by (simp add: checkForWin_def checkForWin_curr_def checkForWin_tok_wf)

theorem checkForWin_iff_four_in_a_row_witness:
  "wf_grid (foldl (\<lambda>g x. state_of (makeMove g x \<lparr>color = ''red''\<rparr>))
              (makeBoard \<lparr>width = 4, height = 1, board = []\<rparr>) [0, 1, 2, 3]) \<and>
   spec_four_in_a_row
     (foldl (\<lambda>g x. state_of (makeMove g x \<lparr>color = ''red''\<rparr>))
        (makeBoard \<lparr>width = 4, height = 1, board = []\<rparr>) [0, 1, 2, 3]) ''red'' \<and>
   wf_grid (Game 1 1 [Some \<lparr>color = ''red''\<rparr>]) \<and>
   currPlayer (Game 1 1 [Some \<lparr>color = ''red''\<rparr>]) = Some \<lparr>color = ''red''\<rparr> \<and>
   checkForWin_curr (Game 1 1 [Some \<lparr>color = ''red''\<rparr>]) = Inr None"
proof -
  define g where "g = foldl (\<lambda>g x. state_of (makeMove g x \<lparr>color = ''red''\<rparr>))
              (makeBoard \<lparr>width = 4, height = 1, board = []\<rparr>) [0, 1, 2, 3]"
  define ga where "ga = Game 1 1 [Some \<lparr>color = ''red''\<rparr>]"
  have w: "wf_grid g" unfolding g_def by (simp add: eval_grid)
  have c: "checkForWin g \<lparr>color = ''red''\<rparr> = Inr (Some True)"
    unfolding g_def by (simp add: eval_grid eval_win)
  have wa: "wf_grid ga" unfolding ga_def by (simp add: Game_def eval_grid)
  have pa: "currPlayer ga = Some \<lparr>color = ''red''\<rparr>"
    unfolding ga_def by (simp add: Game_def first_player_def makeBoard_def)
  have na: "\<not> spec_four_in_a_row ga ''red''"
    unfolding ga_def
    by (simp add: Game_def eval_grid spec_four_in_a_row_def spec_line_wins_def spec_directions_def
        spec_token_at_def)
  have "wf_grid g \<and> spec_four_in_a_row g ''red'' \<and> wf_grid ga \<and>
        currPlayer ga = Some \<lparr>color = ''red''\<rparr> \<and> checkForWin_curr ga = Inr None"
    using checkForWin_iff_four_in_a_row[OF w, of "\<lparr>color = ''red''\<rparr>" ga "\<lparr>color = ''red''\<rparr>"]
      w c wa pa na
    by simp
  then show ?thesis unfolding g_def ga_def .
qed

text \<open>
  The claim as stated fails where no line is satisfied: on the empty 7 by 6 grid no
  four-in-a-row exists and the call gives \<^verbatim>\<open>undefined\<close>, not \<^verbatim>\<open>false\<close>.
\<close>

theorem checkForWin_returns_undefined_counterexample:
  "\<not> spec_four_in_a_row (makeBoard \<lparr>width = 7, height = 6, board = []\<rparr>) ''red'' \<and>
   checkForWin (makeBoard \<lparr>width = 7, height = 6, board = []\<rparr>) \<lparr>color = ''red''\<rparr> = Inr None \<and>
   checkForWin (makeBoard \<lparr>width = 7, height = 6, board = []\<rparr>) \<lparr>color = ''red''\<rparr>
     \<noteq> Inr (Some False)"
proof -
  have c: "checkForWin (makeBoard \<lparr>width = 7, height = 6, board = []\<rparr>) \<lparr>color = ''red''\<rparr> = Inr None"
    by (simp add: eval_grid eval_win)
  have w: "wf_grid (makeBoard \<lparr>width = 7, height = 6, board = []\<rparr>)"
    by (simp add: eval_grid)
  have "\<not> spec_four_in_a_row (makeBoard \<lparr>width = 7, height = 6, board = []\<rparr>) ''red''"
    using c checkForWin_tok_wf[OF w, of "''red''"] by (simp add: checkForWin_def split: if_splits)
  with c show ?thesis by simp
qed

section \<open>The handlers on a well-formed grid\<close>

lemma put_fields [simp]:
  "width (put g y x v) = width g" "height (put g y x v) = height g"
  by (simp_all add: put_def)

lemma put_page_fields [simp]:
  "listening (put g y x v) = listening g" "alerts (put g y x v) = alerts g"
  by (simp_all add: put_def)

lemma put_game_fields [simp]:
  "players (put g y x v) = players g" "currPlayer (put g y x v) = currPlayer g"
  by (simp_all add: put_def)

lemma put_game_hc_fields [simp]:
  "currPlayer_hc (put g y x v) = currPlayer_hc g" "compPlayer (put g y x v) = compPlayer g"
  "canClick (put g y x v) = canClick g" "pending (put g y x v) = pending g"
  by (simp_all add: put_def)

lemma store_wf:
  "wf_grid g \<Longrightarrow> 0 \<le> y \<Longrightarrow> y < height g \<Longrightarrow>
   store (board g) y x v = Inr (board (put g y x v))"
  by (simp add: store_def row_wf put_def)

lemma board_put_update: "g\<lparr>board := board (put g y x v)\<rparr> = put g y x v"
  by (simp add: put_def)

lemma findSpot_cases:
  assumes "wf_grid g"
  obtains "findSpotForCol g x = Inr None"
  | y where "findSpotForCol g x = Inr (Some y)" "0 \<le> y" "y < height g" "\<not> occupied g y x"
proof -
  obtain r where r: "findSpotForCol g x = Inr r"
    using assms find_from_total[of g "height g - 1" x] by (auto simp: findSpotForCol_def)
  show ?thesis
  proof (cases r)
    case None
    with r that show ?thesis by simp
  next
    case (Some y)
    with r assms have "0 \<le> y" "y < height g" "\<not> occupied g y x" by (auto simp: findSpot_Some)
    with r Some that show ?thesis by simp
  qed
qed

lemma handleClick_wf:
  assumes "wf_grid g" "0 \<le> x" "x < width g"
  shows "handleClick g x =
     (case findSpotForCol g x of
        Inl e \<Rightarrow> Throws e g
      | Inr None \<Rightarrow> Returns g
      | Inr (Some y) \<Rightarrow>
          (case currPlayer g of
             None \<Rightarrow> Throws TypeError g
           | Some p \<Rightarrow>
               Returns
                 (if spec_four_in_a_row (put g y x (Str (color p))) (color p)
                  then endGame (put g y x (Str (color p))) (color p @ '' player won!'')
                  else if isFull (put g y x (Str (color p)))
                  then endGame (put g y x (Str (color p))) ''Tie!''
                  else switchPlayers (put g y x (Str (color p))))))"
proof (cases rule: findSpot_cases[OF assms(1), of x])
  case 1
  then show ?thesis by (simp add: handleClick_def)
next
  case (2 y)
  show ?thesis
  proof (cases "currPlayer g")
    case None
    with 2 show ?thesis by (simp add: handleClick_def)
  next
    case (Some p)
    let ?g1 = "put g y x (Str (color p))"
    have w: "wf_grid ?g1" using assms 2 by (simp add: wf_put)
    have c: "checkForWin_curr ?g1 = Inr (if spec_four_in_a_row ?g1 (color p) then Some True else None)"
      using w Some by (simp add: checkForWin_curr_def checkForWin_tok_wf)
    show ?thesis
      using 2 Some assms c
      by (simp add: handleClick_def store_wf board_put_update placeInTable_def)
  qed
qed

lemma evaluateGame_wf:
  assumes "wf_grid g"
  shows "evaluateGame g p =
     Returns (if spec_four_in_a_row g (color p) then endGame g (''The '' @ name p @ '' won!'')
              else if isFull g then endGame g ''Tie!'' else g)"
  using assms by (simp add: evaluateGame_def checkForWin_def checkForWin_tok_wf)




section \<open>Rotating the players\<close>

lemma length_switchPlayers_from [simp]: "length (switchPlayers_from ps i) = length ps"
proof (induction ps i rule: switchPlayers_from.induct)
  case (1 ps i)
  show ?case
  proof (cases "int i < int (length ps) - 1")
    case True
    with 1 show ?thesis by (subst switchPlayers_from.simps) simp
  next
    case False
    then show ?thesis by (subst switchPlayers_from.simps) simp
  qed
qed

lemma switchPlayers_from_eq:
  "i < length ps \<Longrightarrow>
   switchPlayers_from ps i = take i ps @ drop (i + 1) ps @ [last ps]"
proof (induction ps i rule: switchPlayers_from.induct)
  case (1 ps i)
  show ?case
  proof (cases "int i < int (length ps) - 1")
    case True
    let ?qs = "ps[i := ps ! (i + 1)]"
    have i: "i + 1 < length ps" using True by auto
    have ih: "switchPlayers_from ?qs (i + 1) = take (i + 1) ?qs @ drop (i + 2) ?qs @ [last ?qs]"
      using 1(1)[OF True] i by simp
    have l: "last ?qs = last ps" using i by (subst last_list_update) auto
    have t: "take (i + 1) ?qs = take i ps @ [ps ! (i + 1)]"
      using i by (simp add: take_Suc_conv_app_nth)
    have d: "drop (i + 2) ?qs = drop (i + 2) ps" by simp
    have "drop (i + 1) ps = ps ! (i + 1) # drop (i + 2) ps"
      using i by (simp add: Cons_nth_drop_Suc)
    with ih l t d have "switchPlayers_from ?qs (i + 1) = take i ps @ drop (i + 1) ps @ [last ps]"
      by simp
    with True show ?thesis by (subst switchPlayers_from.simps) simp
  next
    case False
    with 1(2) have e: "i = length ps - 1" and n: "ps \<noteq> []" by auto
    then have "take i ps = butlast ps" "drop (i + 1) ps = []"
      by (simp_all add: butlast_conv_take)
    with n have "take i ps @ drop (i + 1) ps @ [last ps] = ps" by simp
    with False show ?thesis by (subst switchPlayers_from.simps) simp
  qed
qed


lemma switchPlayers_shift:
  assumes "players g \<noteq> []" "currPlayer g = first_player (players g)"
  shows "players (switchPlayers g) = tl (players g) @ [hd (players g)]"
    and "currPlayer (switchPlayers g) = first_player (players (switchPlayers g))"
proof -
  obtain p ps where ps: "players g = p # ps" using assms(1) by (cases "players g") auto
  have s: "switchPlayers_from (players g) 0 = ps @ [last (p # ps)]"
    using switchPlayers_from_eq[of 0 "players g"] ps by simp
  have c: "currPlayer g = p" using assms(2) ps by (simp add: first_player_def)
  show "players (switchPlayers g) = tl (players g) @ [hd (players g)]"
    using s c ps by (simp add: switchPlayers_def Let_def list_update_append)
  show "currPlayer (switchPlayers g) = first_player (players (switchPlayers g))"
    by (simp add: switchPlayers_def Let_def)
qed

lemmas eval_game =
  Game_def first_player_def handleClick_def click_def checkForWin_curr_def isFull_def every_def
  endGame_def switchPlayers_def switchPlayers_from.simps Let_def

text \<open>
  Claim C8. In the rotation variant, in a state with at least one player whose
  \<^verbatim>\<open>currPlayer\<close> is \<^verbatim>\<open>players[0]\<close> (as the constructor sets it and \<^verbatim>\<open>switchPlayers\<close>
  keeps it), \<^verbatim>\<open>switchPlayers\<close> moves the acting player to the back of the sequence, the new
  front becomes \<^verbatim>\<open>currPlayer\<close>, and the sequence is a permutation of the old one; with
  three players the current player goes from the first to the second to the third and
  back to the first. A click that places a piece and does not end the game leaves exactly
  the state \<^verbatim>\<open>switchPlayers\<close> gives after the placement.
\<close>

theorem switchPlayers_rotates:
  assumes "players g \<noteq> []" and "currPlayer g = first_player (players g)"
  shows "players (switchPlayers g) = tl (players g) @ [currPlayer g] \<and>
    currPlayer (switchPlayers g) = first_player (players (switchPlayers g)) \<and>
    mset (players (switchPlayers g)) = mset (players g) \<and>
    (players g = [p1, p2, p3] \<longrightarrow>
       currPlayer g = p1 \<and>
       currPlayer (switchPlayers g) = p2 \<and>
       currPlayer (switchPlayers (switchPlayers g)) = p3 \<and>
       currPlayer (switchPlayers (switchPlayers (switchPlayers g))) = p1) \<and>
    (wf_grid g \<and> 0 \<le> x \<and> x < width g \<and> findSpotForCol g x = Inr (Some y) \<and>
     currPlayer g = Some p \<and> listening g \<and> listening (state_of (handleClick g x)) \<longrightarrow>
       state_of (handleClick g x) = switchPlayers (put g y x (Str (color p))) \<and>
       players (state_of (handleClick g x)) = tl (players g) @ [currPlayer g] \<and>
       currPlayer (state_of (handleClick g x)) = first_player (players (state_of (handleClick g x))))"
proof -
  have hd: "currPlayer g = hd (players g)"
    using assms by (cases "players g") (simp_all add: first_player_def)
  have rot: "players (switchPlayers h) = tl (players h) @ [currPlayer h]"
    if "players h \<noteq> []" "currPlayer h = first_player (players h)" for h
  proof -
    have "currPlayer h = hd (players h)"
      using that by (cases "players h") (simp_all add: first_player_def)
    with switchPlayers_shift(1)[OF that] show ?thesis by simp
  qed
  have cur: "currPlayer (switchPlayers h) = first_player (players (switchPlayers h))" for h
    by (simp add: switchPlayers_def Let_def)
  have a: "players (switchPlayers g) = tl (players g) @ [currPlayer g]" using rot[OF assms] .
  have m: "mset (players (switchPlayers g)) = mset (players g)"
    using a hd assms(1) by (cases "players g") simp_all
  have three: "currPlayer g = p1 \<and> currPlayer (switchPlayers g) = p2 \<and>
       currPlayer (switchPlayers (switchPlayers g)) = p3 \<and>
       currPlayer (switchPlayers (switchPlayers (switchPlayers g))) = p1"
    if e: "players g = [p1, p2, p3]"
  proof -
    have c0: "currPlayer g = p1" using assms(2) e by (simp add: first_player_def)
    have p1: "players (switchPlayers g) = [p2, p3, p1]" using a e c0 by simp
    have c1: "currPlayer (switchPlayers g) = p2" using cur[of g] p1 by (simp add: first_player_def)
    have p2: "players (switchPlayers (switchPlayers g)) = [p3, p1, p2]"
      using rot[of "switchPlayers g"] cur[of g] p1 c1 by simp
    have c2: "currPlayer (switchPlayers (switchPlayers g)) = p3"
      using cur[of "switchPlayers g"] p2 by (simp add: first_player_def)
    have p3: "players (switchPlayers (switchPlayers (switchPlayers g))) = [p1, p2, p3]"
      using rot[of "switchPlayers (switchPlayers g)"] cur[of "switchPlayers g"] p2 c2 by simp
    have c3: "currPlayer (switchPlayers (switchPlayers (switchPlayers g))) = p1"
      using cur[of "switchPlayers (switchPlayers g)"] p3 by (simp add: first_player_def)
    from c0 c1 c2 c3 show ?thesis by simp
  qed
  have move: "state_of (handleClick g x) = switchPlayers (put g y x (Str (color p))) \<and>
       players (state_of (handleClick g x)) = tl (players g) @ [currPlayer g] \<and>
       currPlayer (state_of (handleClick g x)) = first_player (players (state_of (handleClick g x)))"
    if w: "wf_grid g" "0 \<le> x" "x < width g" and f: "findSpotForCol g x = Inr (Some y)"
      and c: "currPlayer g = Some p" and l: "listening g" "listening (state_of (handleClick g x))"
  proof -
    let ?g1 = "put g y x (Str (color p))"
    have s: "state_of (handleClick g x) = switchPlayers ?g1"
      using handleClick_wf[OF w] f c l by (auto simp: endGame_def split: if_splits)
    have "players (switchPlayers ?g1) = tl (players ?g1) @ [currPlayer ?g1]"
      using assms by (intro rot) simp_all
    with s cur[of ?g1] show ?thesis by simp
  qed
  from a cur[of g] m three move show ?thesis by blast
qed


theorem switchPlayers_rotates_witness:
  "players (Game 7 6 [Some \<lparr>color = ''red''\<rparr>, Some \<lparr>color = ''blue''\<rparr>, Some \<lparr>color = ''green''\<rparr>]) \<noteq> [] \<and>
   wf_grid (Game 7 6 [Some \<lparr>color = ''red''\<rparr>, Some \<lparr>color = ''blue''\<rparr>, Some \<lparr>color = ''green''\<rparr>]) \<and>
   findSpotForCol (Game 7 6 [Some \<lparr>color = ''red''\<rparr>, Some \<lparr>color = ''blue''\<rparr>, Some \<lparr>color = ''green''\<rparr>]) 3
     = Inr (Some 5) \<and>
   listening (state_of (handleClick
     (Game 7 6 [Some \<lparr>color = ''red''\<rparr>, Some \<lparr>color = ''blue''\<rparr>, Some \<lparr>color = ''green''\<rparr>]) 3)) \<and>
   players (state_of (handleClick
     (Game 7 6 [Some \<lparr>color = ''red''\<rparr>, Some \<lparr>color = ''blue''\<rparr>, Some \<lparr>color = ''green''\<rparr>]) 3))
     = [Some \<lparr>color = ''blue''\<rparr>, Some \<lparr>color = ''green''\<rparr>, Some \<lparr>color = ''red''\<rparr>] \<and>
   currPlayer (state_of (handleClick
     (Game 7 6 [Some \<lparr>color = ''red''\<rparr>, Some \<lparr>color = ''blue''\<rparr>, Some \<lparr>color = ''green''\<rparr>]) 3))
     = Some \<lparr>color = ''blue''\<rparr> \<and>
   currPlayer (switchPlayers (switchPlayers (switchPlayers
     (Game 7 6 [Some \<lparr>color = ''red''\<rparr>, Some \<lparr>color = ''blue''\<rparr>, Some \<lparr>color = ''green''\<rparr>]))))
     = Some \<lparr>color = ''red''\<rparr>"
proof -
  define g where
    "g = Game 7 6 [Some \<lparr>color = ''red''\<rparr>, Some \<lparr>color = ''blue''\<rparr>, Some \<lparr>color = ''green''\<rparr>]"
  have ps: "players g = [Some \<lparr>color = ''red''\<rparr>, Some \<lparr>color = ''blue''\<rparr>, Some \<lparr>color = ''green''\<rparr>]"
    unfolding g_def by (simp add: Game_def makeBoard_def)
  have cp: "currPlayer g = Some \<lparr>color = ''red''\<rparr>"
    unfolding g_def by (simp add: Game_def makeBoard_def first_player_def)
  have w: "wf_grid g" unfolding g_def by (simp add: Game_def eval_grid)
  have x: "0 \<le> (3::int)" "3 < width g" unfolding g_def by (simp_all add: Game_def makeBoard_def)
  have f: "findSpotForCol g 3 = Inr (Some 5)" unfolding g_def by (simp add: Game_def eval_grid)
  have l: "listening g" unfolding g_def by (simp add: Game_def makeBoard_def)
  have l': "listening (state_of (handleClick g 3))"
    unfolding g_def by (simp add: eval_game eval_grid eval_win)
  have ne: "players g \<noteq> []" using ps by simp
  have cf: "currPlayer g = first_player (players g)" using ps cp by (simp add: first_player_def)
  note T = switchPlayers_rotates[OF ne cf, of "Some \<lparr>color = ''red''\<rparr>"
      "Some \<lparr>color = ''blue''\<rparr>" "Some \<lparr>color = ''green''\<rparr>" 3 5 "\<lparr>color = ''red''\<rparr>"]
  from T ps have c3: "currPlayer (switchPlayers (switchPlayers (switchPlayers g))) = Some \<lparr>color = ''red''\<rparr>"
    by blast
  from T w x f cp l l' have m: "players (state_of (handleClick g 3)) = tl (players g) @ [currPlayer g]"
    "currPlayer (state_of (handleClick g 3)) = first_player (players (state_of (handleClick g 3)))"
    by blast+
  have m1: "players (state_of (handleClick g 3))
       = [Some \<lparr>color = ''blue''\<rparr>, Some \<lparr>color = ''green''\<rparr>, Some \<lparr>color = ''red''\<rparr>]"
    using m(1) ps cp by simp
  have m2: "currPlayer (state_of (handleClick g 3)) = Some \<lparr>color = ''blue''\<rparr>"
    using m(2) m1 by (simp add: first_player_def)
  have "players g \<noteq> [] \<and> wf_grid g \<and> findSpotForCol g 3 = Inr (Some 5) \<and>
     listening (state_of (handleClick g 3)) \<and>
     players (state_of (handleClick g 3))
       = [Some \<lparr>color = ''blue''\<rparr>, Some \<lparr>color = ''green''\<rparr>, Some \<lparr>color = ''red''\<rparr>] \<and>
     currPlayer (state_of (handleClick g 3)) = Some \<lparr>color = ''blue''\<rparr> \<and>
     currPlayer (switchPlayers (switchPlayers (switchPlayers g))) = Some \<lparr>color = ''red''\<rparr>"
    using ne w f l' m1 m2 c3 by blast
  then show ?thesis unfolding g_def .
qed

lemmas eval_hc =
  Game_hc_def evaluateGame_def handleClick_hc_def computerReply_def ComputerPlayer_makeMove_def
  run_def isFull_def every_def endGame_def

section \<open>Rounding to a double\<close>

lemma pow2_pos [simp]: "0 < pow2 q"
  by (simp add: pow2_def)

lemma pow2_nonzero [simp]: "pow2 q \<noteq> 0"
  by (simp add: pow2_def)

lemma pow2_nonneg [simp]: "0 \<le> pow2 q"
  by (simp add: pow2_def)

lemma pow2_0 [simp]: "pow2 0 = 1"
  by (simp add: pow2_def)

lemma pow2_Suc: "pow2 (q + 1) = 2 * pow2 q"
proof (cases "0 \<le> q")
  case True
  then show ?thesis by (simp add: pow2_def nat_add_distrib)
next
  case False
  then have "nat (- q) = Suc (nat (- (q + 1)))" by simp
  with False show ?thesis by (auto simp: pow2_def)
qed

lemma pow2_pred: "pow2 (q - 1) = pow2 q / 2"
  using pow2_Suc[of "q - 1"] by simp

lemma pow2_mono: "q \<le> q' \<Longrightarrow> pow2 q \<le> pow2 q'"
proof -
  assume "q \<le> q'"
  then obtain n where "q' = q + int n" by (metis zle_iff_zadd)
  moreover have "pow2 q \<le> pow2 (q + int n)"
  proof (induction n)
    case 0
    then show ?case by simp
  next
    case (Suc n)
    have "q + int (Suc n) = (q + int n) + 1" by simp
    then have "pow2 (q + int (Suc n)) = 2 * pow2 (q + int n)"
      using pow2_Suc[of "q + int n"] by presburger
    with Suc pow2_pos[of "q + int n"] show ?case by linarith
  qed
  ultimately show ?thesis by simp
qed

lemma pow2_numeral:
  "pow2 52 = 4503599627370496" "pow2 53 = 9007199254740992"
  "pow2 (- 53) = 1 / 9007199254740992" "pow2 (- 1074) \<le> 1 / 9007199254740992"
proof -
  show "pow2 52 = 4503599627370496" "pow2 53 = 9007199254740992" by (simp_all add: pow2_def)
  show a: "pow2 (- 53) = 1 / 9007199254740992" by (simp add: pow2_def power_one_over)
  show "pow2 (- 1074) \<le> 1 / 9007199254740992" using pow2_mono[of "- 1074" "- 53"] a by simp
qed

lemma scale_up_spec:
  "4503599627370496 \<le> y \<Longrightarrow> q \<le> 971 \<Longrightarrow> scale_up y q = (y', q') \<Longrightarrow>
   y' * pow2 q' = y * pow2 q \<and> q \<le> q' \<and> q' \<le> 971 \<and> 4503599627370496 \<le> y' \<and>
   (q' = 971 \<or> y' < 9007199254740992)"
proof (induction y q rule: scale_up.induct)
  case (1 y q)
  show ?case
  proof (cases "9007199254740992 \<le> y \<and> q < 971")
    case True
    then have s: "scale_up (y / 2) (q + 1) = (y', q')"
      using 1(4) by (subst (asm) scale_up.simps) simp
    have "y' * pow2 q' = y / 2 * pow2 (q + 1) \<and> q + 1 \<le> q' \<and> q' \<le> 971 \<and>
          4503599627370496 \<le> y' \<and> (q' = 971 \<or> y' < 9007199254740992)"
      using True s by (intro 1(1)) auto
    then show ?thesis by (simp add: pow2_Suc)
  next
    case False
    then have "(y', q') = (y, q)" using 1(4) by (subst (asm) scale_up.simps) (auto split: if_splits)
    with False 1(2,3) show ?thesis by auto
  qed
qed

lemma scale_down_spec:
  "0 < y \<Longrightarrow> y < 9007199254740992 \<Longrightarrow> - 1074 \<le> q \<Longrightarrow> scale_down y q = (y', q') \<Longrightarrow>
   y' * pow2 q' = y * pow2 q \<and> - 1074 \<le> q' \<and> q' \<le> q \<and> 0 < y' \<and> y' < 9007199254740992 \<and>
   (q' = - 1074 \<or> 4503599627370496 \<le> y')"
proof (induction y q rule: scale_down.induct)
  case (1 y q)
  show ?case
  proof (cases "y < 4503599627370496 \<and> - 1074 < q")
    case True
    then have s: "scale_down (2 * y) (q - 1) = (y', q')"
      using 1(5) by (subst (asm) scale_down.simps) simp
    have "y' * pow2 q' = 2 * y * pow2 (q - 1) \<and> - 1074 \<le> q' \<and> q' \<le> q - 1 \<and> 0 < y' \<and>
          y' < 9007199254740992 \<and> (q' = - 1074 \<or> 4503599627370496 \<le> y')"
      using True s 1(2) by (intro 1(1)) auto
    then show ?thesis by (simp add: pow2_pred)
  next
    case False
    then have "(y', q') = (y, q)" using 1(5) by (subst (asm) scale_down.simps) (auto split: if_splits)
    with False 1(2,3,4) show ?thesis by auto
  qed
qed

lemma scale_spec:
  assumes "0 < x" "scale x = (y, q)"
  shows "y * pow2 q = x \<and> - 1074 \<le> q \<and> q \<le> 971 \<and> 0 < y \<and>
         (q = - 1074 \<or> 4503599627370496 \<le> y) \<and> (q = 971 \<or> y < 9007199254740992)"
proof (cases "9007199254740992 \<le> x")
  case True
  then have "scale_up x 0 = (y, q)" using assms(2) by (simp add: scale_def)
  from scale_up_spec[OF _ _ this] True show ?thesis by auto
next
  case False
  then have "scale_down x 0 = (y, q)" using assms(2) by (simp add: scale_def)
  from scale_down_spec[OF assms(1) _ _ this] False show ?thesis by auto
qed

lemma round_half_even_near:
  "of_int (round_half_even y) \<le> y + 1 / 2" "y - 1 / 2 \<le> of_int (round_half_even y)"
  unfolding round_half_even_def by (auto; linarith)+

lemma round_half_even_nonneg: "0 \<le> y \<Longrightarrow> 0 \<le> round_half_even y"
  unfolding round_half_even_def by auto

lemma round_half_even_int: "of_int (round_half_even y) = y \<Longrightarrow> y \<in> \<int>"
  by (metis Ints_of_int)

lemma round_double_pos:
  assumes "0 < x"
  obtains y q where "scale x = (y, q)" "round_double x = of_int (round_half_even y) * pow2 q"
proof -
  obtain y q where s: "scale x = (y, q)" by (cases "scale x")
  with assms have "round_double x = of_int (round_half_even y) * pow2 q"
    by (simp add: round_double_def)
  with s that show ?thesis by blast
qed

lemma round_double_range:
  assumes "1 \<le> w" "0 \<le> x" "x \<le> w - w / 9007199254740992"
  shows "0 \<le> round_double x \<and> round_double x < w"
proof (cases "x = 0")
  case True
  with assms show ?thesis by (simp add: round_double_def)
next
  case False
  with assms have x: "0 < x" by simp
  obtain y q where s: "scale x = (y, q)"
    and r: "round_double x = of_int (round_half_even y) * pow2 q"
    using round_double_pos[OF x] by blast
  note sp = scale_spec[OF x s]
  have y: "0 < y" "y * pow2 q = x" using sp by simp_all
  have lo: "0 \<le> round_double x"
    using r round_half_even_nonneg[of y] y(1) by (simp add: mult_nonneg_nonneg)
  have "of_int (round_half_even y) * pow2 q \<le> (y + 1 / 2) * pow2 q"
    using round_half_even_near(1)[of y] by (simp add: mult_right_mono)
  then have up: "round_double x \<le> x + pow2 q / 2" using r y(2) by (simp add: algebra_simps)
  have small: "pow2 q / 2 < w / 9007199254740992"
  proof (cases "q = - 1074")
    case True
    have "pow2 q / 2 < pow2 q" by simp
    also have "\<dots> \<le> 1 / 9007199254740992" using True pow2_numeral(4) by simp
    also have "\<dots> \<le> w / 9007199254740992" using assms(1) by (simp add: divide_right_mono)
    finally show ?thesis .
  next
    case False
    then have "4503599627370496 \<le> y" using sp by blast
    then have "4503599627370496 * pow2 q \<le> y * pow2 q" by (simp add: mult_right_mono)
    then have "4503599627370496 * pow2 q \<le> x" using y(2) by simp
    moreover have "x < w" using assms by (smt (verit) divide_pos_pos)
    ultimately have "4503599627370496 * pow2 q < w" by linarith
    then show ?thesis by simp
  qed
  from up small assms(3) have "round_double x < w" by linarith
  with lo show ?thesis by simp
qed

lemma double_below_one:
  assumes "is_double r" "0 \<le> r" "r < 1"
  shows "r \<le> 1 - 1 / 9007199254740992"
proof (rule ccontr)
  assume "\<not> r \<le> 1 - 1 / 9007199254740992"
  then have big: "1 - 1 / 9007199254740992 < r" by simp
  then have x: "0 < r" by simp
  obtain y q where s: "scale r = (y, q)"
    and rd: "round_double r = of_int (round_half_even y) * pow2 q"
    using round_double_pos[OF x] by blast
  note sp = scale_spec[OF x s]
  have yq: "y * pow2 q = r" using sp by simp
  have "of_int (round_half_even y) * pow2 q = y * pow2 q"
    using assms(1) rd yq by (simp add: is_double_def)
  then have int: "of_int (round_half_even y) = y" by simp
  have q53: "q = - 53"
  proof -
    have "\<not> q \<le> - 54"
    proof
      assume "q \<le> - 54"
      then have "pow2 q \<le> pow2 (- 54)" by (rule pow2_mono)
      also have "pow2 (- 54) = 1 / 18014398509481984" by (simp add: pow2_def power_one_over)
      finally have "pow2 q \<le> 1 / 18014398509481984" .
      moreover have "0 \<le> y" using sp by simp
      ultimately have "y * pow2 q \<le> y * (1 / 18014398509481984)"
        by (rule mult_left_mono)
      then have "y * pow2 q \<le> y / 18014398509481984" by simp
      moreover have "y < 9007199254740992" using sp \<open>q \<le> - 54\<close> by auto
      ultimately have "r < 1 / 2" using yq by simp
      with big show False by simp
    qed
    moreover have "\<not> - 52 \<le> q"
    proof
      assume a: "- 52 \<le> q"
      then have "pow2 (- 52) \<le> pow2 q" by (rule pow2_mono)
      moreover have "pow2 (- 52) = 1 / 4503599627370496" by (simp add: pow2_def power_one_over)
      moreover have "4503599627370496 \<le> y" using sp a by auto
      ultimately have p: "1 / 4503599627370496 \<le> pow2 q" and y: "4503599627370496 \<le> y"
        by simp_all
      have "4503599627370496 * (1 / 4503599627370496) \<le> y * pow2 q"
        using y p by (intro mult_mono) simp_all
      then have "1 \<le> y * pow2 q" by simp
      with yq assms(3) show False by simp
    qed
    ultimately show ?thesis by simp
  qed
  have "y = r * 9007199254740992" using yq q53 pow2_numeral(3) by simp
  with big assms(3) have "9007199254740991 < y" "y < 9007199254740992" by simp_all
  then have "real_of_int 9007199254740991 < of_int (round_half_even y)"
    "of_int (round_half_even y) < real_of_int 9007199254740992"
    using int by simp_all
  then have "(9007199254740991::int) < round_half_even y" "round_half_even y < (9007199254740992::int)"
    unfolding of_int_less_iff by simp_all
  then show False by linarith
qed

lemma ComputerPlayer_makeMove_range:
  assumes "0 < w" "is_double r" "0 \<le> r" "r < 1"
  shows "0 \<le> ComputerPlayer_makeMove w r \<and> ComputerPlayer_makeMove w r < w"
proof -
  have r: "r \<le> 1 - 1 / 9007199254740992" using assms(2-4) by (rule double_below_one)
  have w: "(1::real) \<le> of_int w" using assms(1) by simp
  have "r * of_int w \<le> (1 - 1 / 9007199254740992) * of_int w"
    using r assms(1) by (simp add: mult_right_mono)
  then have "r * of_int w \<le> of_int w - of_int w / 9007199254740992" by (simp add: algebra_simps)
  moreover have "0 \<le> r * of_int w" using assms by simp
  ultimately have "0 \<le> round_double (r * of_int w) \<and> round_double (r * of_int w) < of_int w"
    using round_double_range[OF w] by blast
  then show ?thesis by (simp add: ComputerPlayer_makeMove_def floor_less_iff)
qed

section \<open>Requests while the computer is thinking\<close>

text \<open>
  Claim C10. In the human/computer variant, a click that arrives while \<^verbatim>\<open>canClick\<close> is
  false (between a human click and the computer's delayed reply) is dropped: the handler
  returns with the whole state unchanged, the grid, the lock and the scheduled reply
  included. The state has no queue, and every later run of events gives the same result
  with the dropped click as without it, so the click is never replayed.
\<close>

theorem locked_click_dropped:
  assumes "\<not> canClick g"
  shows "handleClick_hc g x = Returns g \<and> step g (Click x) = g \<and>
         run g (Click x # es) = run g es"
  using assms by (simp add: handleClick_hc_def run_def)

theorem locked_click_dropped_witness:
  "\<not> canClick (step (Game_hc 7 6 ''red'' ''blue'') (Click 3)) \<and>
   pending (step (Game_hc 7 6 ''red'' ''blue'') (Click 3)) = 1 \<and>
   step (step (Game_hc 7 6 ''red'' ''blue'') (Click 3)) (Click 4)
     = step (Game_hc 7 6 ''red'' ''blue'') (Click 3) \<and>
   run (step (Game_hc 7 6 ''red'' ''blue'') (Click 3)) [Click 4, Timeout (1 / 2), Click 0]
     = run (step (Game_hc 7 6 ''red'' ''blue'') (Click 3)) [Timeout (1 / 2), Click 0]"
proof -
  define g where "g = step (Game_hc 7 6 ''red'' ''blue'') (Click 3)"
  have c: "\<not> canClick g" unfolding g_def by (simp add: eval_hc eval_grid eval_win)
  have p: "pending g = 1" unfolding g_def by (simp add: eval_hc eval_grid eval_win)
  have "\<not> canClick g \<and> pending g = 1 \<and> step g (Click 4) = g \<and>
     run g [Click 4, Timeout (1 / 2), Click 0] = run g [Timeout (1 / 2), Click 0]"
    using locked_click_dropped[OF c, of 4 "[Timeout (1 / 2), Click 0]"] c p by simp
  then show ?thesis unfolding g_def .
qed

section \<open>Win before tie\<close>







section \<open>Occupied cells and dimensions\<close>

lemma list_all_upto: "list_all P [0..h - 1] = (\<forall>y. 0 \<le> y \<and> y < h \<longrightarrow> P y)"
proof -
  have "\<And>y. (y \<in> set [0..h - 1]) = (0 \<le> y \<and> y < h)" by auto
  then show ?thesis unfolding list_all_iff by auto
qed

lemma truthy_kept_iff:
  "truthy_kept g g' =
     (width g' = width g \<and> height g' = height g \<and>
      map alength (board g') = map alength (board g) \<and>
      (\<forall>y x. 0 \<le> y \<and> y < height g \<and> 0 \<le> x \<and> x < width g \<and> occupied g y x \<longrightarrow>
             cell (board g') y x = cell (board g) y x))"
  unfolding truthy_kept_def list_all_upto by auto

lemma truthy_kept_refl: "truthy_kept g g"
  by (simp add: truthy_kept_iff)

lemma truthy_kept_trans: "truthy_kept g g' \<Longrightarrow> truthy_kept g' g'' \<Longrightarrow> truthy_kept g g''"
  unfolding truthy_kept_iff occupied_def by auto

lemma truthy_kept_same_grid:
  "width g'' = width g' \<Longrightarrow> height g'' = height g' \<Longrightarrow> board g'' = board g' \<Longrightarrow>
   truthy_kept g g'' = truthy_kept g g'"
  by (simp add: truthy_kept_iff)

lemma wf_same_grid:
  "width g'' = width g' \<Longrightarrow> height g'' = height g' \<Longrightarrow> board g'' = board g' \<Longrightarrow>
   wf_grid g'' = wf_grid g'"
  by (simp add: wf_grid_def)

lemma alength_put:
  assumes "wf_grid g" "0 \<le> y" "y < height g" "0 \<le> x" "x < width g"
  shows "map alength (board (put g y x v)) = map alength (board g)"
proof -
  have l: "nat y < length (board g)" using assms by (simp add: wf_grid_def)
  then have "wf_row (width g) (board g ! nat y)"
    using assms(1) by (auto simp: wf_grid_def list_all_length)
  then have "alength (aset (board g ! nat y) x v) = alength (board g ! nat y)"
    using assms by (auto simp: wf_row_def aset_def array_index_def)
  then show ?thesis using l by (simp add: put_def map_update list_update_same_conv)
qed

lemma cell_put:
  assumes "wf_grid g" "0 \<le> y" "y < height g" "0 \<le> y'" "y' < height g"
  shows "cell (board (put g y x v)) y' x' =
         (if y' = y \<and> x' = x then Inr v else cell (board g) y' x')"
proof -
  have l: "nat y < length (board g)" "nat y' < length (board g)" using assms by (simp_all add: wf_grid_def)
  show ?thesis
    using assms l by (auto simp: cell_def row_def put_def nth_list_update aget_aset)
qed

lemma truthy_kept_put:
  assumes "wf_grid g" "0 \<le> y" "y < height g" "0 \<le> x" "x < width g" "\<not> occupied g y x"
  shows "truthy_kept g (put g y x v)"
  unfolding truthy_kept_iff using assms by (auto simp: alength_put cell_put)

lemma makeMove_kept:
  assumes "wf_grid g" "0 \<le> x" "x < width g"
  shows "\<exists>g'. makeMove g x p = Returns g' \<and> truthy_kept g g' \<and> wf_grid g' \<and>
              (g' = g \<or> (\<exists>y. g' = put g y x (Str (color p))))"
proof (cases rule: findSpot_cases[OF assms(1), of x])
  case 1
  with assms show ?thesis by (simp add: makeMove_wf truthy_kept_refl)
next
  case (2 y)
  with assms show ?thesis by (auto simp: makeMove_wf truthy_kept_put wf_put)
qed

lemma endGame_grid [simp]:
  "width (endGame g m) = width g" "height (endGame g m) = height g" "board (endGame g m) = board g"
  by (simp_all add: endGame_def)

lemma switchPlayers_grid [simp]:
  "width (switchPlayers g) = width g" "height (switchPlayers g) = height g"
  "board (switchPlayers g) = board g"
  by (simp_all add: switchPlayers_def Let_def)

lemma click_kept:
  assumes "wf_grid g" "0 \<le> x" "x < width g"
  shows "truthy_kept g (click g x) \<and> wf_grid (click g x)"
proof (cases "listening g")
  case False
  with assms show ?thesis by (simp add: click_def truthy_kept_refl)
next
  case True
  show ?thesis
  proof (cases rule: findSpot_cases[OF assms(1), of x])
    case 1
    with True assms show ?thesis by (simp add: click_def handleClick_wf truthy_kept_refl)
  next
    case (2 y)
    show ?thesis
    proof (cases "currPlayer g")
      case None
      with 2 True assms show ?thesis by (simp add: click_def handleClick_wf truthy_kept_refl)
    next
      case (Some p)
      let ?g1 = "put g y x (Str (color p))"
      have k: "truthy_kept g ?g1" "wf_grid ?g1" using assms 2 by (simp_all add: truthy_kept_put wf_put)
      have "width (click g x) = width ?g1 \<and> height (click g x) = height ?g1 \<and>
            board (click g x) = board ?g1"
        using True 2 Some assms by (simp add: click_def handleClick_wf)
      then show ?thesis using k truthy_kept_same_grid[of "click g x" ?g1 g] wf_same_grid[of "click g x" ?g1]
        by simp
    qed
  qed
qed

lemma clicks_kept:
  "wf_grid g \<Longrightarrow> list_all (\<lambda>x. 0 \<le> x \<and> x < width g) xs \<Longrightarrow>
   truthy_kept g (foldl click g xs) \<and> wf_grid (foldl click g xs)"
proof (induction xs arbitrary: g)
  case Nil
  then show ?case by (simp add: truthy_kept_refl)
next
  case (Cons x xs)
  have s: "truthy_kept g (click g x)" "wf_grid (click g x)" using Cons.prems click_kept[of g x] by simp_all
  then have w: "width (click g x) = width g" by (simp add: truthy_kept_iff)
  have "truthy_kept (click g x) (foldl click (click g x) xs) \<and> wf_grid (foldl click (click g x) xs)"
    using Cons.prems s w by (intro Cons.IH) simp_all
  with s show ?case using truthy_kept_trans by auto
qed

lemma evaluateGame_grid:
  assumes "wf_grid g"
  shows "\<exists>g'. evaluateGame g p = Returns g' \<and> width g' = width g \<and> height g' = height g \<and>
           board g' = board g"
  using assms by (simp add: evaluateGame_wf)

lemma move_then_evaluate:
  fixes h :: game_hc and q :: "game_hc \<Rightarrow> named_player" and f :: "game_hc \<Rightarrow> game_hc"
  assumes "wf_grid h" "0 \<le> x" "x < width h"
  shows "\<exists>g2. (case makeMove h x p of Throws e g1 \<Rightarrow> Throws e g1
                 | Returns g1 \<Rightarrow> (case evaluateGame g1 (q g1) of Throws e g2 \<Rightarrow> Throws e g2
                                  | Returns g2 \<Rightarrow> Returns (f g2))) = Returns (f g2) \<and>
              truthy_kept h g2 \<and> wf_grid g2"
proof -
  obtain g1 where g1: "makeMove h x p = Returns g1" "truthy_kept h g1" "wf_grid g1"
    using makeMove_kept[OF assms, of p] by blast
  obtain g2 where g2: "evaluateGame g1 (q g1) = Returns g2" "width g2 = width g1"
    "height g2 = height g1" "board g2 = board g1"
    using evaluateGame_grid[OF g1(3), of "q g1"] by blast
  have "truthy_kept h g2" "wf_grid g2"
    using g1 g2 truthy_kept_same_grid[of g2 g1 h] wf_same_grid[of g2 g1] by simp_all
  with g1 g2 show ?thesis by auto
qed

lemma step_kept:
  assumes "wf_grid g" "0 < width g" "valid_event (width g) ev"
  shows "truthy_kept g (step g ev) \<and> wf_grid (step g ev)"
proof -
  show ?thesis
  proof (cases ev)
    case (Click x)
    show ?thesis
    proof (cases "listening g \<and> canClick g")
      case False
      with Click assms show ?thesis by (auto simp: handleClick_hc_def truthy_kept_refl)
    next
      case True
      from move_then_evaluate[where h = g and x = x and p = "currPlayer_hc g" and q = currPlayer_hc
          and f = "\<lambda>g2. g2\<lparr>canClick := False, pending := pending g2 + 1\<rparr>"]
        assms Click
      obtain g2 where g2: "handleClick_hc g x = Returns (g2\<lparr>canClick := False, pending := pending g2 + 1\<rparr>)"
        "truthy_kept g g2" "wf_grid g2"
        using True by (auto simp: handleClick_hc_def)
      then show ?thesis
        using Click True truthy_kept_same_grid[of "g2\<lparr>canClick := False, pending := pending g2 + 1\<rparr>" g2 g]
          wf_same_grid[of "g2\<lparr>canClick := False, pending := pending g2 + 1\<rparr>" g2]
        by simp
    qed
  next
    case (Timeout r)
    show ?thesis
    proof (cases "pending g = 0")
      case True
      with Timeout assms show ?thesis by (simp add: truthy_kept_refl)
    next
      case False
      let ?h = "g\<lparr>pending := pending g - 1\<rparr>"
      have h: "wf_grid ?h" "width ?h = width g" using assms wf_same_grid[of ?h g] by simp_all
      have x: "0 \<le> ComputerPlayer_makeMove (width ?h) r" "ComputerPlayer_makeMove (width ?h) r < width ?h"
        using ComputerPlayer_makeMove_range[of "width g" r] assms Timeout by simp_all
      from move_then_evaluate[OF h(1) x, where p = "compPlayer ?h" and q = compPlayer
          and f = "\<lambda>g2. g2\<lparr>canClick := True\<rparr>"]
      obtain g2 where g2: "computerReply ?h r = Returns (g2\<lparr>canClick := True\<rparr>)" "truthy_kept ?h g2" "wf_grid g2"
        by (auto simp: computerReply_def)
      have "truthy_kept g g2" using g2(2) by (simp add: truthy_kept_iff occupied_def)
      then show ?thesis
        using Timeout False g2 truthy_kept_same_grid[of "g2\<lparr>canClick := True\<rparr>" g2 g]
          wf_same_grid[of "g2\<lparr>canClick := True\<rparr>" g2]
        by simp
    qed
  qed
qed

lemma run_kept:
  "wf_grid g \<Longrightarrow> 0 < width g \<Longrightarrow> list_all (valid_event (width g)) es \<Longrightarrow>
   truthy_kept g (run g es) \<and> wf_grid (run g es)"
proof (induction es arbitrary: g)
  case Nil
  then show ?case by (simp add: run_def truthy_kept_refl)
next
  case (Cons e es)
  have s: "truthy_kept g (step g e)" "wf_grid (step g e)" using Cons.prems step_kept[of g e] by simp_all
  then have w: "width (step g e) = width g" by (simp add: truthy_kept_iff)
  have "truthy_kept (step g e) (run (step g e) es) \<and> wf_grid (run (step g e) es)"
    using Cons.prems s w by (intro Cons.IH) simp_all
  with s show ?case using truthy_kept_trans by (auto simp: run_def)
qed


lemma makeBoard_from_replicate:
  "makeBoard_from w h y b = b @ replicate (nat (h - y)) (array_from w)"
proof (induction w h y b rule: makeBoard_from.induct)
  case (1 w h y b)
  show ?case
  proof (cases "y < h")
    case True
    then have "nat (h - y) = Suc (nat (h - (y + 1)))" by simp
    with 1 True show ?thesis
      by (subst makeBoard_from.simps) (simp add: replicate_app_Cons_same)
  next
    case False
    then show ?thesis by (subst makeBoard_from.simps) simp
  qed
qed

lemma wf_row_array_from: "wf_row w (array_from w)"
  by (auto simp: wf_row_def array_from_def list_all_iff)

lemma wf_grid_makeBoard: "board g = [] \<Longrightarrow> wf_grid (makeBoard g)"
  by (simp add: wf_grid_def makeBoard_def makeBoard_from_replicate list_all_iff wf_row_array_from)

lemma wf_grid_Game: "wf_grid (Game w h ps)"
  by (simp add: Game_def wf_grid_makeBoard)

lemma wf_grid_Game_hc: "wf_grid (Game_hc w h pc cc)"
  by (simp add: Game_hc_def wf_grid_makeBoard)

text \<open>
  What every request keeps, on any grid and for any column index: a placement goes to
  the cell \<^verbatim>\<open>findSpotForCol\<close> found, whose value is falsy, and nothing else writes to the
  board.
\<close>

lemma findSpot_from_falsy:
  "findSpotForCol_from g x y0 = Inr (Some y) \<Longrightarrow>
   0 \<le> y \<and> y \<le> y0 \<and> (\<exists>v. cell (board g) y x = Inr v \<and> \<not> truthy v)"
proof (induction g x y0 rule: findSpotForCol_from.induct)
  case (1 g x y0)
  show ?case
  proof (cases "y0 \<ge> 0")
    case False
    with 1(2) show ?thesis by (subst (asm) findSpotForCol_from.simps) simp
  next
    case True
    show ?thesis
    proof (cases "cell (board g) y0 x")
      case (Inl e)
      with True 1(2) show ?thesis by (subst (asm) findSpotForCol_from.simps) simp
    next
      case (Inr v)
      show ?thesis
      proof (cases "truthy v")
        case False
        with True Inr 1(2) have "y = y0" by (subst (asm) findSpotForCol_from.simps) simp
        with True Inr False show ?thesis by simp
      next
        case t: True
        with True Inr 1(2) have "findSpotForCol_from g x (y0 - 1) = Inr (Some y)"
          by (subst (asm) findSpotForCol_from.simps) simp
        with 1(1)[OF True Inr] t have "0 \<le> y \<and> y \<le> y0 - 1 \<and> (\<exists>v. cell (board g) y x = Inr v \<and> \<not> truthy v)"
          by simp
        then show ?thesis by auto
      qed
    qed
  qed
qed

lemma findSpot_falsy:
  "findSpotForCol g x = Inr (Some y) \<Longrightarrow> 0 \<le> y \<and> \<not> occupied g y x"
  using findSpot_from_falsy[of g x "height g - 1" y]
  by (auto simp: findSpotForCol_def occupied_def)

lemma store_elsewhere:
  assumes "store b y x v = Inr b'"
  shows "length b' = length b \<and> (y' \<noteq> y \<or> x' \<noteq> x \<longrightarrow> cell b' y' x' = cell b y' x')"
proof -
  from assms have y: "0 \<le> y" "nat y < length b" and b': "b' = b[nat y := aset (b ! nat y) x v]"
    by (auto simp: store_def row_def split: if_splits)
  have l: "length b' = length b" using b' by simp
  have "cell b' y' x' = cell b y' x'" if "y' \<noteq> y \<or> x' \<noteq> x"
  proof (cases "0 \<le> y' \<and> nat y' < length b")
    case False
    then show ?thesis using l by (auto simp: cell_def row_def)
  next
    case True
    show ?thesis
    proof (cases "y' = y")
      case True
      with that have "x' \<noteq> x" by simp
      with True y b' show ?thesis by (simp add: cell_def row_def aget_def aset_def)
    next
      case False
      with True y have "nat y' \<noteq> nat y" by (auto simp: nat_eq_iff)
      with True b' show ?thesis by (simp add: cell_def row_def)
    qed
  qed
  with l show ?thesis by simp
qed

lemma placement_keeps:
  assumes "findSpotForCol g x = Inr (Some y)" "store (board g) y x v = Inr b" "occupied g y' x'"
  shows "cell b y' x' = cell (board g) y' x'"
proof -
  have "\<not> occupied g y x" using assms(1) by (simp add: findSpot_falsy)
  with assms(3) have "y' \<noteq> y \<or> x' \<noteq> x" by auto
  with store_elsewhere[OF assms(2), of y' x'] show ?thesis by simp
qed

lemma makeMove_keeps:
  "width (state_of (makeMove g x p)) = width g \<and> height (state_of (makeMove g x p)) = height g \<and>
   length (board (state_of (makeMove g x p))) = length (board g) \<and>
   (occupied g y' x' \<longrightarrow> cell (board (state_of (makeMove g x p))) y' x' = cell (board g) y' x')"
proof (cases "findSpotForCol g x")
  case (Inl e)
  then show ?thesis by (simp add: makeMove_def)
next
  case (Inr r)
  show ?thesis
  proof (cases r)
    case None
    with Inr show ?thesis by (simp add: makeMove_def)
  next
    case (Some y)
    show ?thesis
    proof (cases "store (board g) y x (Str (color p))")
      case (Inl e)
      with Inr Some show ?thesis by (simp add: makeMove_def)
    next
      case b: (Inr b)
      have s: "state_of (makeMove g x p) = g\<lparr>board := b\<rparr>"
        using Inr Some b by (simp add: makeMove_def placeInTable_def)
      have "length b = length (board g)" using store_elsewhere[OF b] by simp
      moreover have "cell b y' x' = cell (board g) y' x'" if "occupied g y' x'"
        using placement_keeps[OF _ b that] Inr Some by simp
      ultimately show ?thesis using s by simp
    qed
  qed
qed

lemma evaluateGame_keeps:
  "width (state_of (evaluateGame g p)) = width g \<and> height (state_of (evaluateGame g p)) = height g \<and>
   board (state_of (evaluateGame g p)) = board g"
  by (simp add: evaluateGame_def endGame_def split: sum.splits)

lemma handleClick_keeps:
  "width (state_of (handleClick g x)) = width g \<and> height (state_of (handleClick g x)) = height g \<and>
   length (board (state_of (handleClick g x))) = length (board g) \<and>
   (occupied g y' x' \<longrightarrow> cell (board (state_of (handleClick g x))) y' x' = cell (board g) y' x')"
proof (cases "findSpotForCol g x")
  case (Inl e)
  then show ?thesis by (simp add: handleClick_def)
next
  case (Inr r)
  show ?thesis
  proof (cases r)
    case None
    with Inr show ?thesis by (simp add: handleClick_def)
  next
    case (Some y)
    show ?thesis
    proof (cases "currPlayer g")
      case None
      with Inr Some show ?thesis by (simp add: handleClick_def)
    next
      case p: (Some p)
      show ?thesis
      proof (cases "store (board g) y x (Str (color p))")
        case (Inl e)
        with Inr Some p show ?thesis by (simp add: handleClick_def)
      next
        case b: (Inr b)
        have s: "width (state_of (handleClick g x)) = width g \<and>
                 height (state_of (handleClick g x)) = height g \<and>
                 board (state_of (handleClick g x)) = b"
          using Inr Some p b
          by (simp add: handleClick_def placeInTable_def endGame_def switchPlayers_def Let_def
                split: sum.splits)
        have "length b = length (board g)" using store_elsewhere[OF b] by simp
        moreover have "cell b y' x' = cell (board g) y' x'" if "occupied g y' x'"
          using placement_keeps[OF _ b that] Inr Some by simp
        ultimately show ?thesis using s by simp
      qed
    qed
  qed
qed

lemma click_keeps:
  "width (click g x) = width g \<and> height (click g x) = height g \<and>
   length (board (click g x)) = length (board g) \<and>
   (occupied g y' x' \<longrightarrow> cell (board (click g x)) y' x' = cell (board g) y' x')"
  using handleClick_keeps[of g x y' x'] by (simp add: click_def)

lemma clicks_keep:
  "width (foldl click g xs) = width g \<and> height (foldl click g xs) = height g \<and>
   length (board (foldl click g xs)) = length (board g) \<and>
   (occupied g y' x' \<longrightarrow> cell (board (foldl click g xs)) y' x' = cell (board g) y' x')"
proof (induction xs arbitrary: g)
  case Nil
  then show ?case by simp
next
  case (Cons x xs)
  note a = click_keeps[of g x y' x']
  note b = Cons.IH[of "click g x"]
  have "occupied (click g x) y' x'" if "occupied g y' x'"
    using that a by (simp add: occupied_def)
  with a b show ?case by simp
qed

lemma handleClick_hc_keeps:
  "width (state_of (handleClick_hc g x)) = width g \<and>
   height (state_of (handleClick_hc g x)) = height g \<and>
   length (board (state_of (handleClick_hc g x))) = length (board g) \<and>
   (occupied g y' x' \<longrightarrow>
      cell (board (state_of (handleClick_hc g x))) y' x' = cell (board g) y' x')"
proof (cases "canClick g")
  case False
  then show ?thesis by (simp add: handleClick_hc_def)
next
  case True
  note m = makeMove_keeps[of g x "currPlayer_hc g" y' x']
  show ?thesis
  proof (cases "makeMove g x (currPlayer_hc g)")
    case (Throws e g1)
    with True m show ?thesis by (simp add: handleClick_hc_def)
  next
    case (Returns g1)
    note e = evaluateGame_keeps[of g1 "currPlayer_hc g1"]
    show ?thesis
    proof (cases "evaluateGame g1 (currPlayer_hc g1)")
      case t: (Throws e' g2)
      with True Returns m e show ?thesis by (simp add: handleClick_hc_def)
    next
      case r: (Returns g2)
      with True Returns m e show ?thesis by (simp add: handleClick_hc_def)
    qed
  qed
qed

lemma computerReply_keeps:
  "width (state_of (computerReply g r)) = width g \<and>
   height (state_of (computerReply g r)) = height g \<and>
   length (board (state_of (computerReply g r))) = length (board g) \<and>
   (occupied g y' x' \<longrightarrow>
      cell (board (state_of (computerReply g r))) y' x' = cell (board g) y' x')"
proof -
  note m = makeMove_keeps[of g "ComputerPlayer_makeMove (width g) r" "compPlayer g" y' x']
  show ?thesis
  proof (cases "makeMove g (ComputerPlayer_makeMove (width g) r) (compPlayer g)")
    case (Throws e g1)
    with m show ?thesis by (simp add: computerReply_def)
  next
    case (Returns g1)
    note e = evaluateGame_keeps[of g1 "compPlayer g1"]
    show ?thesis
    proof (cases "evaluateGame g1 (compPlayer g1)")
      case t: (Throws e' g2)
      with Returns m e show ?thesis by (simp add: computerReply_def)
    next
      case r: (Returns g2)
      with Returns m e show ?thesis by (simp add: computerReply_def)
    qed
  qed
qed

lemma step_keeps:
  "width (step g ev) = width g \<and> height (step g ev) = height g \<and>
   length (board (step g ev)) = length (board g) \<and>
   (occupied g y' x' \<longrightarrow> cell (board (step g ev)) y' x' = cell (board g) y' x')"
proof (cases ev)
  case (Click x)
  with handleClick_hc_keeps[of g x y' x'] show ?thesis by simp
next
  case (Timeout r)
  with computerReply_keeps[of "g\<lparr>pending := pending g - 1\<rparr>" r y' x'] show ?thesis
    by (simp add: occupied_def)
qed

lemma run_keeps:
  "width (run g es) = width g \<and> height (run g es) = height g \<and>
   length (board (run g es)) = length (board g) \<and>
   (occupied g y' x' \<longrightarrow> cell (board (run g es)) y' x' = cell (board g) y' x')"
proof (induction es arbitrary: g)
  case Nil
  then show ?case by (simp add: run_def)
next
  case (Cons e es)
  note a = step_keeps[of g e y' x']
  note b = Cons.IH[of "step g e"]
  have "occupied (step g e) y' x'" if "occupied g y' x'"
    using that a by (simp add: occupied_def)
  with a b show ?case by (simp add: run_def)
qed

text \<open>
  Claim C7 fails as stated, on two counts. A cell counts as empty while its value is
  falsy, and a player may have the empty colour: in the rotation variant with the colours
  \<^verbatim>\<open>''\<close> and \<^verbatim>\<open>'blue'\<close> on the 7 by 6 board, the first click on column 0 is accepted and
  stores \<^verbatim>\<open>''\<close> in the bottom cell, and the second click on column 0 is accepted and
  overwrites that cell with \<^verbatim>\<open>'blue'\<close>. And the dimensions are not fixed under every
  operation: a click with the column index 7, which no handler checks, stores the colour
  at index 7 of the bottom row before the page update throws, and that row then has
  length 8.
\<close>

theorem placed_cell_overwritten_counterexample:
  "cell (board (Game 7 6 [Some \<lparr>color = ''''\<rparr>, Some \<lparr>color = ''blue''\<rparr>])) 5 0 = Inr Undefined \<and>
   cell (board (click (Game 7 6 [Some \<lparr>color = ''''\<rparr>, Some \<lparr>color = ''blue''\<rparr>]) 0)) 5 0
     = Inr (Str '''') \<and>
   cell (board (foldl click (Game 7 6 [Some \<lparr>color = ''''\<rparr>, Some \<lparr>color = ''blue''\<rparr>]) [0, 0])) 5 0
     = Inr (Str ''blue'') \<and>
   cell (board (foldl click (Game 7 6 [Some \<lparr>color = ''''\<rparr>, Some \<lparr>color = ''blue''\<rparr>]) [0, 0])) 4 0
     = Inr Undefined \<and>
   map alength (board (Game 7 6 [Some \<lparr>color = ''red''\<rparr>, Some \<lparr>color = ''blue''\<rparr>]))
     = [7, 7, 7, 7, 7, 7] \<and>
   map alength (board (click (Game 7 6 [Some \<lparr>color = ''red''\<rparr>, Some \<lparr>color = ''blue''\<rparr>]) 7))
     = [7, 7, 7, 7, 7, 8]"
  by code_simp

text \<open>
  Claim C7, amended. Throughout a game, in both variants, from any state and for every
  sequence of requests (clicks with any column index, computer replies with any draw):
  \<^verbatim>\<open>width\<close>, \<^verbatim>\<open>height\<close> and the number of rows stay as they are, and every cell that
  holds a non-empty colour holds the same value afterwards. So a placement only ever
  changes a cell whose value was falsy (\<^verbatim>\<open>undefined\<close> or the empty colour), and a cell
  holding a non-empty colour is never cleared or overwritten. When moreover the grid is
  well formed (the constructors build one) and the requests name columns of the board
  (clicks on columns \<open>0 .. width - 1\<close>, and computer replies with a draw of
  \<^verbatim>\<open>Math.random()\<close> on a board of positive width), the length of every row is kept as
  well and the grid stays well formed.
\<close>

theorem truthy_cells_and_dimensions_kept:
  "(width (foldl click ga xs) = width ga \<and> height (foldl click ga xs) = height ga \<and>
    length (board (foldl click ga xs)) = length (board ga) \<and>
    (\<forall>y x s. s \<noteq> [] \<and> cell (board ga) y x = Inr (Str s) \<longrightarrow>
             cell (board (foldl click ga xs)) y x = Inr (Str s))) \<and>
   (width (run gb es) = width gb \<and> height (run gb es) = height gb \<and>
    length (board (run gb es)) = length (board gb) \<and>
    (\<forall>y x s. s \<noteq> [] \<and> cell (board gb) y x = Inr (Str s) \<longrightarrow>
             cell (board (run gb es)) y x = Inr (Str s))) \<and>
   (wf_grid ga \<and> list_all (\<lambda>x. 0 \<le> x \<and> x < width ga) xs \<longrightarrow>
      map alength (board (foldl click ga xs)) = map alength (board ga) \<and>
      wf_grid (foldl click ga xs)) \<and>
   (wf_grid gb \<and> 0 < width gb \<and> list_all (valid_event (width gb)) es \<longrightarrow>
      map alength (board (run gb es)) = map alength (board gb) \<and> wf_grid (run gb es)) \<and>
   wf_grid (Game w h ps) \<and> wf_grid (Game_hc w h pc cc)"
proof -
  have a: "cell (board (foldl click ga xs)) y x = Inr (Str s)"
    if "s \<noteq> []" "cell (board ga) y x = Inr (Str s)" for y x s
  proof -
    from that have "occupied ga y x" by (simp add: occupied_def)
    with clicks_keep[of ga xs y x] that(2) show ?thesis by simp
  qed
  have b: "cell (board (run gb es)) y x = Inr (Str s)"
    if "s \<noteq> []" "cell (board gb) y x = Inr (Str s)" for y x s
  proof -
    from that have "occupied gb y x" by (simp add: occupied_def)
    with run_keeps[of gb es y x] that(2) show ?thesis by simp
  qed
  have c: "map alength (board (foldl click ga xs)) = map alength (board ga) \<and>
      wf_grid (foldl click ga xs)"
    if "wf_grid ga" "list_all (\<lambda>x. 0 \<le> x \<and> x < width ga) xs"
    using clicks_kept[OF that] by (simp add: truthy_kept_iff)
  have d: "map alength (board (run gb es)) = map alength (board gb) \<and> wf_grid (run gb es)"
    if "wf_grid gb" "0 < width gb" "list_all (valid_event (width gb)) es"
    using run_kept[OF that] by (simp add: truthy_kept_iff)
  have e: "width (foldl click ga xs) = width ga \<and> height (foldl click ga xs) = height ga \<and>
    length (board (foldl click ga xs)) = length (board ga)"
    using clicks_keep[of ga xs] by simp
  have f: "width (run gb es) = width gb \<and> height (run gb es) = height gb \<and>
    length (board (run gb es)) = length (board gb)"
    using run_keeps[of gb es] by simp
  from a b c d e f wf_grid_Game[of w h ps] wf_grid_Game_hc[of w h pc cc] show ?thesis by blast
qed

theorem truthy_cells_and_dimensions_kept_witness:
  "wf_grid (click (Game 7 6 [Some \<lparr>color = ''red''\<rparr>, Some \<lparr>color = ''blue''\<rparr>]) 3) \<and>
   cell (board (click (Game 7 6 [Some \<lparr>color = ''red''\<rparr>, Some \<lparr>color = ''blue''\<rparr>]) 3)) 5 3
     = Inr (Str ''red'') \<and>
   cell (board (foldl click
       (click (Game 7 6 [Some \<lparr>color = ''red''\<rparr>, Some \<lparr>color = ''blue''\<rparr>]) 3) [3, 3])) 5 3
     = Inr (Str ''red'') \<and>
   cell (board (foldl click
       (click (Game 7 6 [Some \<lparr>color = ''red''\<rparr>, Some \<lparr>color = ''blue''\<rparr>]) 3) [3, 3])) 4 3
     = Inr (Str ''blue'') \<and>
   map alength (board (foldl click
       (click (Game 7 6 [Some \<lparr>color = ''red''\<rparr>, Some \<lparr>color = ''blue''\<rparr>]) 3) [3, 3]))
     = map alength (board (click (Game 7 6 [Some \<lparr>color = ''red''\<rparr>, Some \<lparr>color = ''blue''\<rparr>]) 3)) \<and>
   wf_grid (step (Game_hc 7 6 ''red'' ''blue'') (Click 3)) \<and>
   list_all (valid_event (width (step (Game_hc 7 6 ''red'' ''blue'') (Click 3))))
     [Timeout (1 / 2), Click 3] \<and>
   cell (board (step (Game_hc 7 6 ''red'' ''blue'') (Click 3))) 5 3 = Inr (Str ''red'') \<and>
   cell (board (run (step (Game_hc 7 6 ''red'' ''blue'') (Click 3)) [Timeout (1 / 2), Click 3])) 5 3
     = Inr (Str ''red'') \<and>
   cell (board (run (step (Game_hc 7 6 ''red'' ''blue'') (Click 3)) [Timeout (1 / 2), Click 3])) 4 3
     = Inr (Str ''blue'') \<and>
   map alength (board (run (step (Game_hc 7 6 ''red'' ''blue'') (Click 3))
       [Timeout (1 / 2), Click 3]))
     = map alength (board (step (Game_hc 7 6 ''red'' ''blue'') (Click 3)))"
proof -
  define ga where "ga = click (Game 7 6 [Some \<lparr>color = ''red''\<rparr>, Some \<lparr>color = ''blue''\<rparr>]) 3"
  define gb where "gb = step (Game_hc 7 6 ''red'' ''blue'') (Click 3)"
  have ne: "''red'' \<noteq> []" by simp
  have wa: "wf_grid ga" unfolding ga_def by code_simp
  have xa: "list_all (\<lambda>x. 0 \<le> x \<and> x < width ga) [3, 3]" unfolding ga_def by code_simp
  have ca: "cell (board ga) 5 3 = Inr (Str ''red'')" unfolding ga_def by code_simp
  have na: "cell (board (foldl click ga [3, 3])) 4 3 = Inr (Str ''blue'')"
    unfolding ga_def by code_simp
  have wb: "wf_grid gb" unfolding gb_def by code_simp
  have pb: "0 < width gb" unfolding gb_def by code_simp
  have eb: "list_all (valid_event (width gb)) [Timeout (1 / 2), Click 3]"
    unfolding gb_def by code_simp
  have cb: "cell (board gb) 5 3 = Inr (Str ''red'')" unfolding gb_def by code_simp
  have nb: "cell (board (run gb [Timeout (1 / 2), Click 3])) 4 3 = Inr (Str ''blue'')"
    unfolding gb_def by code_simp
  note T = truthy_cells_and_dimensions_kept[where ga = ga and xs = "[3, 3]" and gb = gb
      and es = "[Timeout (1 / 2), Click 3]"]
  from T ne ca have ka: "cell (board (foldl click ga [3, 3])) 5 3 = Inr (Str ''red'')" by blast
  from T wa xa have la: "map alength (board (foldl click ga [3, 3])) = map alength (board ga)"
    by blast
  from T ne cb have kb: "cell (board (run gb [Timeout (1 / 2), Click 3])) 5 3 = Inr (Str ''red'')"
    by blast
  from T wb pb eb have lb: "map alength (board (run gb [Timeout (1 / 2), Click 3]))
      = map alength (board gb)"
    by blast
  have "wf_grid ga \<and> cell (board ga) 5 3 = Inr (Str ''red'') \<and>
     cell (board (foldl click ga [3, 3])) 5 3 = Inr (Str ''red'') \<and>
     cell (board (foldl click ga [3, 3])) 4 3 = Inr (Str ''blue'') \<and>
     map alength (board (foldl click ga [3, 3])) = map alength (board ga) \<and>
     wf_grid gb \<and> list_all (valid_event (width gb)) [Timeout (1 / 2), Click 3] \<and>
     cell (board gb) 5 3 = Inr (Str ''red'') \<and>
     cell (board (run gb [Timeout (1 / 2), Click 3])) 5 3 = Inr (Str ''red'') \<and>
     cell (board (run gb [Timeout (1 / 2), Click 3])) 4 3 = Inr (Str ''blue'') \<and>
     map alength (board (run gb [Timeout (1 / 2), Click 3])) = map alength (board gb)"
    using wa ca ka na la wb eb cb kb nb lb by blast
  then show ?thesis unfolding ga_def gb_def .
qed

section \<open>A column outside the board\<close>

lemma makeMove_out_of_range:
  assumes "wf_grid g" "x < 0 \<or> width g \<le> x" "findSpotForCol g x = Inr (Some y)"
  shows "makeMove g x p = Throws TypeError (put g y x (Str (color p)))"
proof -
  have y: "0 \<le> y" "y < height g" using assms(1,3) by (auto simp: findSpot_Some)
  with assms show ?thesis
    by (auto simp: makeMove_def store_wf board_put_update placeInTable_def)
qed

lemma put_out_of_range:
  assumes "wf_grid g" "x < 0 \<or> width g \<le> x" "0 \<le> y" "y < height g"
  shows "(\<forall>y' x'. 0 \<le> y' \<and> y' < height g \<and> 0 \<le> x' \<and> x' < width g \<longrightarrow>
            cell (board (put g y x v)) y' x' = cell (board g) y' x') \<and>
         length (board (put g y x v)) = length (board g) \<and>
         alength (board (put g y x v) ! nat y) =
           (if array_index x then nat x + 1 else nat (width g)) \<and>
         (\<forall>k. k < length (board g) \<and> k \<noteq> nat y \<longrightarrow>
            alength (board (put g y x v) ! k) = alength (board g ! k))"
proof -
  have l: "nat y < length (board g)" using assms by (simp add: wf_grid_def)
  then have "wf_row (width g) (board g ! nat y)"
    using assms(1) by (auto simp: wf_grid_def list_all_length)
  then have a: "alength (board g ! nat y) = nat (width g)" by (simp add: wf_row_def)
  have c: "\<forall>y' x'. 0 \<le> y' \<and> y' < height g \<and> 0 \<le> x' \<and> x' < width g \<longrightarrow>
            cell (board (put g y x v)) y' x' = cell (board g) y' x'"
    using assms by (auto simp: cell_put)
  have "alength (board (put g y x v) ! nat y) = (if array_index x then nat x + 1 else nat (width g))"
    using l a assms(2) by (auto simp: put_def aset_def array_index_def)
  with c l show ?thesis by (simp add: put_def)
qed

lemma findSpot_fresh_out_of_range:
  assumes "board g = []" "0 < height g" "x < 0 \<or> width g \<le> x"
  shows "findSpotForCol (makeBoard g) x = Inr (Some (height g - 1))"
proof -
  let ?g = "makeBoard g"
  have w: "wf_grid ?g" using assms(1) by (rule wf_grid_makeBoard)
  have h: "height ?g = height g" "width ?g = width g" by (simp_all add: makeBoard_def)
  have b: "board ?g = replicate (nat (height g)) (array_from (width g))"
    using assms(1) by (simp add: makeBoard_def makeBoard_from_replicate)
  have "\<not> occupied ?g (height g - 1) x"
    using assms b by (simp add: occupied_def cell_def row_def aget_def array_from_def)
  moreover have "\<forall>y'. height g - 1 < y' \<and> y' < height ?g \<longrightarrow> occupied ?g y' x"
    using h by auto
  ultimately show ?thesis using w assms(2) h by (simp add: findSpot_Some)
qed

text \<open>
  Claim C5, as amended. Neither variant checks the column index. On a well-formed grid,
  for an integer column \<open>x\<close> outside \<open>[0, width)\<close> for which \<^verbatim>\<open>findSpotForCol\<close> finds a row
  \<open>y\<close> (on a newly built board of positive height it finds the bottom row, because the
  cells it reads are \<^verbatim>\<open>undefined\<close>), the request is not silently ignored: the colour is
  stored at \<^verbatim>\<open>board[y][x]\<close> and the update of the page then throws a \<^verbatim>\<open>TypeError\<close>, because
  no element has the id \<^verbatim>\<open>y-x\<close>. The handler ends there, so no cell inside the grid is
  changed and the turn does not advance (the players and the current player, or
  \<^verbatim>\<open>canClick\<close> and the scheduled replies, are as before); the number of rows is
  unchanged, but row \<open>y\<close> gets the length \<open>x + 1\<close> when \<open>x\<close> is an array index, that is
  when \<open>width \<le> x < 2\<^sup>3\<^sup>2 - 1\<close>, and keeps its length otherwise.
\<close>

theorem out_of_range_column_throws:
  assumes "wf_grid ga" and "xa < 0 \<or> width ga \<le> xa" and "findSpotForCol ga xa = Inr (Some ya)"
    and "currPlayer ga = Some q"
    and "wf_grid gb" and "xb < 0 \<or> width gb \<le> xb" and "findSpotForCol gb xb = Inr (Some yb)"
    and "canClick gb"
  shows "handleClick ga xa = Throws TypeError (put ga ya xa (Str (color q))) \<and>
    players (state_of (handleClick ga xa)) = players ga \<and>
    currPlayer (state_of (handleClick ga xa)) = currPlayer ga \<and>
    listening (state_of (handleClick ga xa)) = listening ga \<and>
    (\<forall>y x. 0 \<le> y \<and> y < height ga \<and> 0 \<le> x \<and> x < width ga \<longrightarrow>
       cell (board (state_of (handleClick ga xa))) y x = cell (board ga) y x) \<and>
    length (board (state_of (handleClick ga xa))) = length (board ga) \<and>
    alength (board (state_of (handleClick ga xa)) ! nat ya) =
      (if array_index xa then nat xa + 1 else nat (width ga)) \<and>
    handleClick_hc gb xb = Throws TypeError (put gb yb xb (Str (color (currPlayer_hc gb)))) \<and>
    canClick (state_of (handleClick_hc gb xb)) = canClick gb \<and>
    pending (state_of (handleClick_hc gb xb)) = pending gb \<and>
    listening (state_of (handleClick_hc gb xb)) = listening gb \<and>
    (\<forall>y x. 0 \<le> y \<and> y < height gb \<and> 0 \<le> x \<and> x < width gb \<longrightarrow>
       cell (board (state_of (handleClick_hc gb xb))) y x = cell (board gb) y x) \<and>
    length (board (state_of (handleClick_hc gb xb))) = length (board gb) \<and>
    alength (board (state_of (handleClick_hc gb xb)) ! nat yb) =
      (if array_index xb then nat xb + 1 else nat (width gb)) \<and>
    (0 < h \<and> (x < 0 \<or> w \<le> x) \<longrightarrow>
       findSpotForCol (Game w h ps) x = Inr (Some (h - 1)) \<and>
       findSpotForCol (Game_hc w h pc cc) x = Inr (Some (h - 1)))"
proof -
  have ya: "0 \<le> ya" "ya < height ga" using assms(1,3) by (auto simp: findSpot_Some)
  have yb: "0 \<le> yb" "yb < height gb" using assms(5,7) by (auto simp: findSpot_Some)
  have a: "handleClick ga xa = Throws TypeError (put ga ya xa (Str (color q)))"
    using assms(1-4) ya by (auto simp: handleClick_def store_wf board_put_update placeInTable_def)
  have b: "handleClick_hc gb xb = Throws TypeError (put gb yb xb (Str (color (currPlayer_hc gb))))"
    using assms(5-8) by (simp add: handleClick_hc_def makeMove_out_of_range)
  note pa = put_out_of_range[OF assms(1,2) ya, of "Str (color q)"]
  note pb = put_out_of_range[OF assms(5,6) yb, of "Str (color (currPlayer_hc gb))"]
  have f: "findSpotForCol (Game w h ps) x = Inr (Some (h - 1)) \<and>
       findSpotForCol (Game_hc w h pc cc) x = Inr (Some (h - 1))"
    if "0 < h" "x < 0 \<or> w \<le> x"
    using that
      findSpot_fresh_out_of_range[of "\<lparr>width = w, height = h, board = [], listening = True,
        alerts = [], players = ps, currPlayer = first_player ps\<rparr>" x]
      findSpot_fresh_out_of_range[of "\<lparr>width = w, height = h, board = [], listening = True,
        alerts = [], currPlayer_hc = \<lparr>color = pc, name = ''Player''\<rparr>,
        compPlayer = \<lparr>color = cc, name = ''Computer''\<rparr>, canClick = True, pending = 0\<rparr>" x]
    by (simp add: Game_def Game_hc_def)
  from a b pa pb f show ?thesis by simp
qed

theorem out_of_range_column_throws_witness:
  "wf_grid (Game 7 6 [Some \<lparr>color = ''red''\<rparr>, Some \<lparr>color = ''blue''\<rparr>]) \<and>
   findSpotForCol (Game 7 6 [Some \<lparr>color = ''red''\<rparr>, Some \<lparr>color = ''blue''\<rparr>]) 7 = Inr (Some 5) \<and>
   currPlayer (Game 7 6 [Some \<lparr>color = ''red''\<rparr>, Some \<lparr>color = ''blue''\<rparr>]) = Some \<lparr>color = ''red''\<rparr> \<and>
   wf_grid (Game_hc 7 6 ''red'' ''blue'') \<and>
   findSpotForCol (Game_hc 7 6 ''red'' ''blue'') (- 1) = Inr (Some 5) \<and>
   canClick (Game_hc 7 6 ''red'' ''blue'') \<and>
   handleClick (Game 7 6 [Some \<lparr>color = ''red''\<rparr>, Some \<lparr>color = ''blue''\<rparr>]) 7
     = Throws TypeError
         (put (Game 7 6 [Some \<lparr>color = ''red''\<rparr>, Some \<lparr>color = ''blue''\<rparr>]) 5 7 (Str ''red'')) \<and>
   alength (board (state_of
       (handleClick (Game 7 6 [Some \<lparr>color = ''red''\<rparr>, Some \<lparr>color = ''blue''\<rparr>]) 7)) ! 5) = 8 \<and>
   handleClick_hc (Game_hc 7 6 ''red'' ''blue'') (- 1)
     = Throws TypeError (put (Game_hc 7 6 ''red'' ''blue'') 5 (- 1) (Str ''red'')) \<and>
   alength (board (state_of (handleClick_hc (Game_hc 7 6 ''red'' ''blue'') (- 1))) ! 5) = 7 \<and>
   canClick (state_of (handleClick_hc (Game_hc 7 6 ''red'' ''blue'') (- 1))) \<and>
   findSpotForCol (Game_hc 7 6 ''red'' ''blue'') 7 = Inr (Some 5)"
proof -
  define ga where "ga = Game 7 6 [Some \<lparr>color = ''red''\<rparr>, Some \<lparr>color = ''blue''\<rparr>]"
  define gb where "gb = Game_hc 7 6 ''red'' ''blue''"
  have wa: "wf_grid ga" unfolding ga_def by (rule wf_grid_Game)
  have wb: "wf_grid gb" unfolding gb_def by (rule wf_grid_Game_hc)
  have xa: "(7::int) < 0 \<or> width ga \<le> 7" unfolding ga_def by (simp add: Game_def makeBoard_def)
  have xb: "(- 1::int) < 0 \<or> width gb \<le> - 1" by simp
  have fa: "findSpotForCol ga 7 = Inr (Some 5)" unfolding ga_def by code_simp
  have fb: "findSpotForCol gb (- 1) = Inr (Some 5)" unfolding gb_def by code_simp
  have ca: "currPlayer ga = Some \<lparr>color = ''red''\<rparr>"
    unfolding ga_def by (simp add: Game_def makeBoard_def first_player_def)
  have cb: "canClick gb" unfolding gb_def by (simp add: Game_hc_def makeBoard_def)
  have pb: "color (currPlayer_hc gb) = ''red''" unfolding gb_def by (simp add: Game_hc_def makeBoard_def)
  have wd: "width ga = 7" "width gb = 7" unfolding ga_def gb_def by (simp_all add: Game_def Game_hc_def makeBoard_def)
  note T = out_of_range_column_throws[OF wa xa fa ca wb xb fb cb,
      where h = 6 and x = 7 and w = 7 and pc = "''red''" and cc = "''blue''"]
  from T have f7: "findSpotForCol (Game_hc 7 6 ''red'' ''blue'') 7 = Inr (Some (6 - 1))"
    by simp
  from T have a1: "handleClick ga 7 = Throws TypeError (put ga 5 7 (Str (color \<lparr>color = ''red''\<rparr>)))"
    by blast
  from T have a2: "alength (board (state_of (handleClick ga 7)) ! nat 5) =
      (if array_index 7 then nat 7 + 1 else nat (width ga))"
    by blast
  from T have b1: "handleClick_hc gb (- 1) =
      Throws TypeError (put gb 5 (- 1) (Str (color (currPlayer_hc gb))))"
    by blast
  from T have b2: "alength (board (state_of (handleClick_hc gb (- 1))) ! nat 5) =
      (if array_index (- 1) then nat (- 1) + 1 else nat (width gb))"
    by blast
  from T have b3: "canClick (state_of (handleClick_hc gb (- 1))) = canClick gb"
    by blast
  have a1': "handleClick ga 7 = Throws TypeError (put ga 5 7 (Str ''red''))" using a1 by simp
  have a2': "alength (board (state_of (handleClick ga 7)) ! 5) = 8"
    using a2 by (simp add: array_index_def)
  have b1': "handleClick_hc gb (- 1) = Throws TypeError (put gb 5 (- 1) (Str ''red''))"
    using b1 pb by simp
  have b2': "alength (board (state_of (handleClick_hc gb (- 1))) ! 5) = 7"
    using b2 wd by (simp add: array_index_def)
  have b3': "canClick (state_of (handleClick_hc gb (- 1)))" using b3 cb by simp
  have "wf_grid ga \<and> findSpotForCol ga 7 = Inr (Some 5) \<and> currPlayer ga = Some \<lparr>color = ''red''\<rparr> \<and>
     wf_grid gb \<and> findSpotForCol gb (- 1) = Inr (Some 5) \<and> canClick gb \<and>
     handleClick ga 7 = Throws TypeError (put ga 5 7 (Str ''red'')) \<and>
     alength (board (state_of (handleClick ga 7)) ! 5) = 8 \<and>
     handleClick_hc gb (- 1) = Throws TypeError (put gb 5 (- 1) (Str ''red'')) \<and>
     alength (board (state_of (handleClick_hc gb (- 1))) ! 5) = 7 \<and>
     canClick (state_of (handleClick_hc gb (- 1))) \<and>
     findSpotForCol (Game_hc 7 6 ''red'' ''blue'') 7 = Inr (Some 5)"
    using wa fa ca wb fb cb a1' a2' b1' b2' b3' f7 by simp
  then show ?thesis unfolding ga_def gb_def .
qed

text \<open>
  The claim as stated fails at column 7 of the 7 by 6 board: the click stores the colour
  at \<^verbatim>\<open>board[5][7]\<close>, row 5 then has length 8, and the handler throws.
\<close>

theorem out_of_range_column_extends_row_counterexample:
  "map alength (board (Game 7 6 [Some \<lparr>color = ''red''\<rparr>, Some \<lparr>color = ''blue''\<rparr>]))
     = [7, 7, 7, 7, 7, 7] \<and>
   map alength (board (click (Game 7 6 [Some \<lparr>color = ''red''\<rparr>, Some \<lparr>color = ''blue''\<rparr>]) 7))
     = [7, 7, 7, 7, 7, 8] \<and>
   cell (board (click (Game 7 6 [Some \<lparr>color = ''red''\<rparr>, Some \<lparr>color = ''blue''\<rparr>]) 7)) 5 7
     = Inr (Str ''red'') \<and>
   (case handleClick (Game 7 6 [Some \<lparr>color = ''red''\<rparr>, Some \<lparr>color = ''blue''\<rparr>]) 7 of
      Returns g \<Rightarrow> False | Throws e g \<Rightarrow> e = TypeError) \<and>
   map alength (board (step (Game_hc 7 6 ''red'' ''blue'') (Click 7))) = [7, 7, 7, 7, 7, 8]"
  by code_simp


section \<open>Requests after the game has ended\<close>

text \<open>
  Once \<^verbatim>\<open>endGame\<close> has removed the listener, a click changes nothing, in both variants.
\<close>

lemma ended_game_ignores_clicks:
  "\<not> listening ga \<Longrightarrow> click ga x = ga" "\<not> listening gb \<Longrightarrow> step gb (Click x) = gb"
  by (simp_all add: click_def)

text \<open>
  Claim C3 fails on the human/computer variant. \<^verbatim>\<open>handleClick\<close> schedules the computer's
  reply whether or not \<^verbatim>\<open>evaluateGame\<close> has just ended the game, and the reply is applied
  when its timeout fires. On the 7 by 6 board the human plays column 0 four times and the
  computer, drawing \<open>1/2\<close>, answers in column 3 three times; the human's fourth piece wins
  and the game ends with one message. The pending reply then places a fourth computer
  piece at row 2 of column 3, which was empty, and a second message announces that the
  computer has won.
\<close>

theorem computer_reply_after_human_win:
  "\<not> listening (run (Game_hc 7 6 ''red'' ''blue'')
       [Click 0, Timeout (1 / 2), Click 0, Timeout (1 / 2), Click 0, Timeout (1 / 2), Click 0]) \<and>
   alerts (run (Game_hc 7 6 ''red'' ''blue'')
       [Click 0, Timeout (1 / 2), Click 0, Timeout (1 / 2), Click 0, Timeout (1 / 2), Click 0])
     = [''The Player won!''] \<and>
   cell (board (run (Game_hc 7 6 ''red'' ''blue'')
       [Click 0, Timeout (1 / 2), Click 0, Timeout (1 / 2), Click 0, Timeout (1 / 2), Click 0])) 2 3
     = Inr Undefined \<and>
   cell (board (run (Game_hc 7 6 ''red'' ''blue'')
       [Click 0, Timeout (1 / 2), Click 0, Timeout (1 / 2), Click 0, Timeout (1 / 2), Click 0,
        Timeout (1 / 2)])) 2 3
     = Inr (Str ''blue'') \<and>
   alerts (run (Game_hc 7 6 ''red'' ''blue'')
       [Click 0, Timeout (1 / 2), Click 0, Timeout (1 / 2), Click 0, Timeout (1 / 2), Click 0,
        Timeout (1 / 2)])
     = [''The Player won!'', ''The Computer won!'']"
  by code_simp

section \<open>A click on a full column\<close>

text \<open>
  In the rotation variant a click on a full column returns at once with the state
  unchanged. In the human/computer variant \<^verbatim>\<open>makeMove\<close> returns without placing, but
  \<^verbatim>\<open>handleClick\<close> goes on: when the game is not over it locks the board and schedules the
  computer's reply.
\<close>

lemma full_column_click_ignored_rot:
  "findSpotForCol g x = Inr None \<Longrightarrow> handleClick g x = Returns g"
  by (simp add: handleClick_def)

lemma full_column_click_hc:
  assumes "wf_grid g" "canClick g" "findSpotForCol g x = Inr None"
    "\<not> spec_four_in_a_row g (color (currPlayer_hc g))" "\<not> isFull g"
  shows "handleClick_hc g x = Returns (g\<lparr>canClick := False, pending := pending g + 1\<rparr>)"
  using assms by (simp add: handleClick_hc_def makeMove_def evaluateGame_wf)

text \<open>
  Claim C4 fails on the human/computer variant. On the 7 by 6 board the human plays
  column 0 three times and the computer, drawing \<open>1/8\<close>, answers in column 0 each time:
  the column is full, nobody has won and the human is to move. A click on column 0
  leaves all 42 cells as they were, yet \<^verbatim>\<open>canClick\<close> becomes false and a reply is
  scheduled; when it fires the computer places a piece in column 3. The human's turn
  has passed to the computer.
\<close>

theorem full_column_click_passes_turn:
  "listening (run (Game_hc 7 6 ''red'' ''blue'')
       [Click 0, Timeout (1 / 8), Click 0, Timeout (1 / 8), Click 0, Timeout (1 / 8)]) \<and>
   canClick (run (Game_hc 7 6 ''red'' ''blue'')
       [Click 0, Timeout (1 / 8), Click 0, Timeout (1 / 8), Click 0, Timeout (1 / 8)]) \<and>
   pending (run (Game_hc 7 6 ''red'' ''blue'')
       [Click 0, Timeout (1 / 8), Click 0, Timeout (1 / 8), Click 0, Timeout (1 / 8)]) = 0 \<and>
   findSpotForCol (run (Game_hc 7 6 ''red'' ''blue'')
       [Click 0, Timeout (1 / 8), Click 0, Timeout (1 / 8), Click 0, Timeout (1 / 8)]) 0
     = Inr None \<and>
   map (\<lambda>y. map (cell (board (run (Game_hc 7 6 ''red'' ''blue'')
       [Click 0, Timeout (1 / 8), Click 0, Timeout (1 / 8), Click 0, Timeout (1 / 8), Click 0])) y)
         [0..6]) [0..5]
     = map (\<lambda>y. map (cell (board (run (Game_hc 7 6 ''red'' ''blue'')
       [Click 0, Timeout (1 / 8), Click 0, Timeout (1 / 8), Click 0, Timeout (1 / 8)])) y)
         [0..6]) [0..5] \<and>
   \<not> canClick (run (Game_hc 7 6 ''red'' ''blue'')
       [Click 0, Timeout (1 / 8), Click 0, Timeout (1 / 8), Click 0, Timeout (1 / 8), Click 0]) \<and>
   pending (run (Game_hc 7 6 ''red'' ''blue'')
       [Click 0, Timeout (1 / 8), Click 0, Timeout (1 / 8), Click 0, Timeout (1 / 8), Click 0]) = 1 \<and>
   cell (board (run (Game_hc 7 6 ''red'' ''blue'')
       [Click 0, Timeout (1 / 8), Click 0, Timeout (1 / 8), Click 0, Timeout (1 / 8), Click 0,
        Timeout (1 / 2)])) 5 3 = Inr (Str ''blue'')"
  by code_simp

section \<open>The computer's column\<close>



end
